theory Spec2Isabelle
  imports Main "HOL-Library.Sublist"
begin

section \<open>Data model of the extension registry\<close>

text \<open>
  The store is the project configuration file: a version, the configured agents and the
  recorded extensions. An optional field of the TypeScript source (\<^verbatim>\<open>replacedSkills?\<close>,
  \<^verbatim>\<open>extensions?\<close>, \<^verbatim>\<open>skills?\<close>, ...) is an \<open>option\<close>; a JavaScript object used as a
  dictionary (\<^verbatim>\<open>manifest.replaces\<close>) is the association list that \<^verbatim>\<open>Object.entries\<close> yields.
\<close>

record ExtensionRecord =
  name :: string
  source :: string
  version :: string
  replacedSkills :: "string list option"

record AgentInstallation =
  agentId :: string
  skillsDir :: string
  installedSkills :: "string list"

record Config =
  configVersion :: string
  agents :: "AgentInstallation list"
  extensions :: "ExtensionRecord list option"

datatype position = Append | Prepend

record Injection =
  target :: string
  pos :: position
  injFile :: string

record McpServer =
  key :: string
  template :: string

record ExtensionManifest =
  manifestName :: string
  manifestVersion :: string
  skills :: "string list option"
  replaces :: "(string \<times> string) list option"
  injections :: "Injection list option"
  mcpServers :: "McpServer list option"

datatype error =
    NoConfig
  | ResolveFailed string
  | Conflict string string
  | NotInstalled string

text \<open>
  Every call that a command makes to a collaborator that writes to the project is
  logged as an effect, in the order the calls are made. The agent of a per-agent call is
  named by its id.
\<close>

datatype effect =
    CommitExtensionInstall string
  | StripInjectionsByExtensionName string string
  | StripAllExtensionInjections string string
  | RemoveExtensionSkills string "string list"
  | InstallSkills string "string list"
  | InstallExtensionSkills string string "string list" "(string \<times> string) list"
  | UpdateSkills string "string list"
  | ApplySingleExtensionInjections string string
  | ApplyExtensionInjections string "string list"
  | ConfigureExtensionMcpServers string string
  | RemoveExtensionMcpServers string "string list"
  | RemoveExtensionFiles string
  | SaveConfig Config
  | Cleanup

text \<open>
  The collaborators whose code the commands only call: what they return is a parameter of
  the model. \<open>installExtensionSkills env a ext paths overrides\<close> is the list of names
  the installer reports as installed for agent \<open>a\<close>; \<open>loadExtensionManifest env n\<close>
  is the manifest found in the durable storage directory of extension \<open>n\<close>, if it loads.
\<close>

record Env =
  resolveExtension :: "string \<Rightarrow> error + ExtensionManifest"
  loadExtensionManifest :: "string \<Rightarrow> ExtensionManifest option"
  installExtensionSkills ::
    "AgentInstallation \<Rightarrow> string \<Rightarrow> string list \<Rightarrow> (string \<times> string) list \<Rightarrow> string list"
  getAvailableSkills :: "string list"
  updateSkills :: "AgentInstallation \<Rightarrow> string list \<Rightarrow> string list"
  getCurrentVersion :: string
  readJsonFile :: "string \<Rightarrow> string \<Rightarrow> bool"
  supportsMcp :: "string \<Rightarrow> bool"

section \<open>Helpers for the JavaScript idioms\<close>

text \<open>\<^verbatim>\<open>xs ?? []\<close>; also \<^verbatim>\<open>xs?.length\<close> is truthy exactly when \<open>orEmpty xs \<noteq> []\<close>.\<close>

definition orEmpty :: "'a list option \<Rightarrow> 'a list" where
  "orEmpty xs = (case xs of None \<Rightarrow> [] | Some ys \<Rightarrow> ys)"

text \<open>\<^verbatim>\<open>Array.prototype.findIndex\<close>: the first index whose element satisfies the predicate.\<close>

fun findIndex :: "('a \<Rightarrow> bool) \<Rightarrow> 'a list \<Rightarrow> nat option" where
  "findIndex P [] = None"
| "findIndex P (x # xs) = (if P x then Some 0 else map_option Suc (findIndex P xs))"

text \<open>
  A \<^verbatim>\<open>Set\<close> filled by \<^verbatim>\<open>add\<close> and spread into an array keeps each element once, in
  the order of first insertion.
\<close>

definition setAdd :: "'a list \<Rightarrow> 'a \<Rightarrow> 'a list" where
  "setAdd acc x = (if x \<in> set acc then acc else acc @ [x])"

definition collectReplaced :: "ExtensionRecord list \<Rightarrow> string list" where
  "collectReplaced exts = foldl (\<lambda>acc e. foldl setAdd acc (orEmpty (replacedSkills e))) [] exts"

text \<open>
  The \<^verbatim>\<open>Map\<close> from base name to success count that the install loop fills:
  \<^verbatim>\<open>perAgentResults.set(name, (perAgentResults.get(name) ?? 0) + 1)\<close>.
\<close>

definition bump :: "(string \<rightharpoonup> nat) \<Rightarrow> string \<Rightarrow> (string \<rightharpoonup> nat)" where
  "bump m n = m(n \<mapsto> (case m n of None \<Rightarrow> 0 | Some k \<Rightarrow> k) + 1)"

definition perAgentResults ::
  "Env \<Rightarrow> AgentInstallation list \<Rightarrow> string \<Rightarrow> string list \<Rightarrow> (string \<times> string) list
    \<Rightarrow> (string \<rightharpoonup> nat)" where
  "perAgentResults env ags ext paths overrides =
     foldl (\<lambda>m a. foldl bump m (installExtensionSkills env a ext paths overrides)) Map.empty ags"

definition successCount :: "(string \<rightharpoonup> nat) \<Rightarrow> string \<Rightarrow> nat" where
  "successCount m b = (case m b of None \<Rightarrow> 0 | Some k \<Rightarrow> k)"

section \<open>Install: extensionAddCommand\<close>

text \<open>
  The conflict check: for each entry of \<^verbatim>\<open>manifest.replaces\<close>, in order, the first other
  record (a record with a different name) whose \<open>replacedSkills\<close> includes the base name.
\<close>

fun findConflict ::
  "string \<Rightarrow> (string \<times> string) list \<Rightarrow> ExtensionRecord list \<Rightarrow> (string \<times> string) option" where
  "findConflict n [] exts = None"
| "findConflict n ((p, b) # rest) exts =
     (case find (\<lambda>other. name other \<noteq> n \<and> b \<in> set (orEmpty (replacedSkills other))) exts of
        Some other \<Rightarrow> Some (b, name other)
      | None \<Rightarrow> findConflict n rest exts)"

text \<open>The clean-up of the previous install when the extension is already recorded.\<close>

definition cleanupOldState ::
  "Env \<Rightarrow> AgentInstallation list \<Rightarrow> string \<Rightarrow> ExtensionRecord \<Rightarrow> ExtensionManifest option
    \<Rightarrow> effect list" where
  "cleanupOldState env ags n oldRecord oldManifest =
     map (\<lambda>a. StripInjectionsByExtensionName (agentId a) n) ags
     @ (let rs = orEmpty (replacedSkills oldRecord) in
        if rs \<noteq> [] then
          map (\<lambda>a. RemoveExtensionSkills (agentId a) rs) ags
          @ (let toRestore = filter (\<lambda>s. s \<in> set (getAvailableSkills env)) rs in
             if toRestore \<noteq> [] then map (\<lambda>a. InstallSkills (agentId a) toRestore) ags else [])
        else [])
     @ (case oldManifest of
          None \<Rightarrow> []
        | Some om \<Rightarrow>
            (let sk = orEmpty (skills om) in
             if sk \<noteq> [] then
               (let oldReplacesPaths = map fst (orEmpty (replaces om));
                    oldCustomSkills = filter (\<lambda>s. s \<notin> set oldReplacesPaths) sk in
                if oldCustomSkills \<noteq> []
                then map (\<lambda>a. RemoveExtensionSkills (agentId a) oldCustomSkills) ags
                else [])
             else []))"

text \<open>
  The loop over the entries of \<^verbatim>\<open>manifest.replaces\<close> after the per-agent installs: an
  entry whose success count equals the number of agents is pushed to \<open>replacedSkills\<close>;
  one with a positive count is rolled back on every agent; one with count zero is only
  reported. The accumulator carries the effects and the names pushed so far.
\<close>

fun reconcileReplacements ::
  "Env \<Rightarrow> AgentInstallation list \<Rightarrow> (string \<rightharpoonup> nat) \<Rightarrow> (string \<times> string) list
    \<Rightarrow> effect list \<times> string list" where
  "reconcileReplacements env ags m [] = ([], [])"
| "reconcileReplacements env ags m ((extSkillPath, baseSkillName) # rest) =
     (let (log, replaced) = reconcileReplacements env ags m rest in
      if successCount m baseSkillName = length ags then (log, baseSkillName # replaced)
      else if successCount m baseSkillName > 0 then
        (map (\<lambda>a. RemoveExtensionSkills (agentId a) [baseSkillName]) ags
         @ (if baseSkillName \<in> set (getAvailableSkills env)
            then map (\<lambda>a. InstallSkills (agentId a) [baseSkillName]) ags else [])
         @ log, replaced)
      else (log, replaced))"

definition installReplacements ::
  "Env \<Rightarrow> AgentInstallation list \<Rightarrow> ExtensionManifest \<Rightarrow> effect list \<times> string list" where
  "installReplacements env ags manifest =
     (let entries = orEmpty (replaces manifest) in
      if entries \<noteq> [] then
        (let replacePaths = map fst entries;
             m = perAgentResults env ags (manifestName manifest) replacePaths entries;
             (log, replaced) = reconcileReplacements env ags m entries
         in (map (\<lambda>a. InstallExtensionSkills (agentId a) (manifestName manifest) replacePaths entries) ags
             @ log, replaced))
      else ([], []))"

definition installCustomSkills ::
  "AgentInstallation list \<Rightarrow> ExtensionManifest \<Rightarrow> effect list" where
  "installCustomSkills ags manifest =
     (let sk = orEmpty (skills manifest) in
      if sk \<noteq> [] then
        (let replacesPaths = map fst (orEmpty (replaces manifest));
             nonReplacementSkills = filter (\<lambda>s. s \<notin> set replacesPaths) sk in
         if nonReplacementSkills \<noteq> []
         then map (\<lambda>a. InstallExtensionSkills (agentId a) (manifestName manifest) nonReplacementSkills []) ags
         else [])
      else [])"

definition applyInjectionsAll :: "AgentInstallation list \<Rightarrow> ExtensionManifest \<Rightarrow> effect list" where
  "applyInjectionsAll ags manifest =
     (if orEmpty (injections manifest) \<noteq> []
      then map (\<lambda>a. ApplySingleExtensionInjections (agentId a) (manifestName manifest)) ags
      else [])"

text \<open>
  \<^verbatim>\<open>applyExtensionMcp\<close>: for every server whose template loads, every agent that supports
  MCP is configured.
\<close>

definition applyExtensionMcp :: "Env \<Rightarrow> string list \<Rightarrow> ExtensionManifest \<Rightarrow> effect list" where
  "applyExtensionMcp env agentIds manifest =
     concat (map (\<lambda>srv.
        if readJsonFile env (manifestName manifest) (template srv)
        then map (\<lambda>i. ConfigureExtensionMcpServers i (key srv)) (filter (supportsMcp env) agentIds)
        else []) (orEmpty (mcpServers manifest)))"

definition newRecord :: "ExtensionManifest \<Rightarrow> string \<Rightarrow> string list \<Rightarrow> ExtensionRecord" where
  "newRecord manifest src replaced =
     \<lparr> name = manifestName manifest, source = src, version = manifestVersion manifest,
       replacedSkills = (if replaced \<noteq> [] then Some replaced else None) \<rparr>"

text \<open>
  The effects of a successful install before the configuration is saved: the copy into
  extension storage, the clean-up of a previous install, the replacement pass with its
  rollbacks, and the custom skills.
\<close>

definition addBeforeSave :: "Env \<Rightarrow> Config \<Rightarrow> ExtensionManifest \<Rightarrow> effect list" where
  "addBeforeSave env config manifest =
     (let exts = orEmpty (extensions config);
          existIdx = findIndex (\<lambda>e. name e = manifestName manifest) exts;
          oldManifest = (case existIdx of None \<Rightarrow> None
                         | Some i \<Rightarrow> loadExtensionManifest env (manifestName manifest));
          ags = agents config
      in [CommitExtensionInstall (manifestName manifest)]
         @ (case existIdx of None \<Rightarrow> []
            | Some i \<Rightarrow> cleanupOldState env ags (manifestName manifest) (exts ! i) oldManifest)
         @ fst (installReplacements env ags manifest)
         @ installCustomSkills ags manifest)"

text \<open>The configuration that a successful install saves.\<close>

definition addSavedConfig :: "Env \<Rightarrow> Config \<Rightarrow> ExtensionManifest \<Rightarrow> string \<Rightarrow> Config" where
  "addSavedConfig env config manifest src =
     (let exts = orEmpty (extensions config);
          existIdx = findIndex (\<lambda>e. name e = manifestName manifest) exts;
          record = newRecord manifest src (snd (installReplacements env (agents config) manifest));
          exts' = (case existIdx of None \<Rightarrow> exts @ [record] | Some i \<Rightarrow> exts[i := record])
      in config\<lparr>extensions := Some exts'\<rparr>)"

text \<open>The effects of a successful install after the configuration is saved.\<close>

definition addAfterSave :: "Env \<Rightarrow> Config \<Rightarrow> ExtensionManifest \<Rightarrow> effect list" where
  "addAfterSave env config manifest =
     applyInjectionsAll (agents config) manifest
     @ (if orEmpty (mcpServers manifest) \<noteq> []
        then applyExtensionMcp env (map agentId (agents config)) manifest else [])
     @ [Cleanup]"

text \<open>
  The command returns the effects it caused, in order, and either the error it exited
  with or the configuration it saved, in the run in which every collaborator that writes
  returns; the runs that a throwing collaborator interrupts are described after the
  three commands. A failed resolution throws before the inner
  \<^verbatim>\<open>try\<close>, so nothing is cleaned up; a conflict throws inside it, before the copy into
  extension storage, and the \<^verbatim>\<open>finally\<close> clause removes the temporary copy of the
  resolved source.
\<close>

definition extensionAddCommand ::
  "Env \<Rightarrow> Config option \<Rightarrow> string \<Rightarrow> effect list \<times> (error + Config)" where
  "extensionAddCommand env cfg src =
     (case cfg of
        None \<Rightarrow> ([], Inl NoConfig)
      | Some config \<Rightarrow>
         (case resolveExtension env src of
            Inl e \<Rightarrow> ([], Inl e)
          | Inr manifest \<Rightarrow>
             (case findConflict (manifestName manifest) (orEmpty (replaces manifest))
                     (orEmpty (extensions config)) of
                Some (b, other) \<Rightarrow> ([Cleanup], Inl (Conflict b other))
              | None \<Rightarrow>
                 (addBeforeSave env config manifest
                  @ [SaveConfig (addSavedConfig env config manifest src)]
                  @ addAfterSave env config manifest,
                  Inr (addSavedConfig env config manifest src)))))"

text \<open>What the installer reports for an agent in the replacement pass of an install.\<close>

definition installedFor :: "Env \<Rightarrow> ExtensionManifest \<Rightarrow> AgentInstallation \<Rightarrow> string list" where
  "installedFor env manifest a =
     installExtensionSkills env a (manifestName manifest)
       (map fst (orEmpty (replaces manifest))) (orEmpty (replaces manifest))"

section \<open>Update: updateCommand\<close>

text \<open>
  One round of the loop that re-installs the replacements of a recorded extension. It
  yields the effects, the names appended to \<^verbatim>\<open>failedReplacements\<close>, and the record as
  the loop leaves it. \<open>manifestReplaces\<close> is the value of \<^verbatim>\<open>manifest?.replaces\<close>:
  \<^verbatim>\<open>!manifest?.replaces\<close> holds when the manifest does not load or has no \<open>replaces\<close>
  section; an empty \<open>replaces\<close> object is truthy and takes the second path.
\<close>

definition manifestReplaces :: "Env \<Rightarrow> string \<Rightarrow> (string \<times> string) list option" where
  "manifestReplaces env n =
     (case loadExtensionManifest env n of None \<Rightarrow> None | Some m \<Rightarrow> replaces m)"

definition refreshReplacement ::
  "Env \<Rightarrow> AgentInstallation list \<Rightarrow> ExtensionRecord
    \<Rightarrow> effect list \<times> string list \<times> ExtensionRecord" where
  "refreshReplacement env ags ext =
     (let rs = orEmpty (replacedSkills ext) in
      if rs = [] then ([], [], ext)
      else
        (case manifestReplaces env (name ext) of
           None \<Rightarrow> ([], rs, ext\<lparr>replacedSkills := Some []\<rparr>)
         | Some entries \<Rightarrow>
            (let manifestBaseSkills = map snd entries;
                 replacePaths = map fst (filter (\<lambda>(extPath, baseSkill). baseSkill \<in> set rs) entries);
                 orphanedReplacements = filter (\<lambda>s. s \<notin> set manifestBaseSkills) rs;
                 ext' = (if orphanedReplacements \<noteq> []
                         then ext\<lparr>replacedSkills := Some (filter (\<lambda>s. s \<in> set manifestBaseSkills) rs)\<rparr>
                         else ext)
             in ((if replacePaths \<noteq> []
                  then map (\<lambda>a. InstallExtensionSkills (agentId a) (name ext) replacePaths entries) ags
                  else []),
                 orphanedReplacements, ext'))))"

text \<open>
  The agents after \<^verbatim>\<open>updateSkills\<close> has run for each of them with the replaced skills
  excluded, the rounds of the replacement loop, and what the loop leaves behind: the
  records as mutated in place, and \<^verbatim>\<open>failedReplacements\<close>.
\<close>

definition updatedAgents :: "Env \<Rightarrow> Config \<Rightarrow> AgentInstallation list" where
  "updatedAgents env config =
     map (\<lambda>a. a\<lparr>installedSkills := updateSkills env a (collectReplaced (orEmpty (extensions config)))\<rparr>)
       (agents config)"

definition refreshRounds ::
  "Env \<Rightarrow> Config \<Rightarrow> (effect list \<times> string list \<times> ExtensionRecord) list" where
  "refreshRounds env config =
     map (refreshReplacement env (updatedAgents env config)) (orEmpty (extensions config))"

definition refreshedExtensions :: "Env \<Rightarrow> Config \<Rightarrow> ExtensionRecord list" where
  "refreshedExtensions env config = map (\<lambda>r. snd (snd r)) (refreshRounds env config)"

definition failedReplacements :: "Env \<Rightarrow> Config \<Rightarrow> string list" where
  "failedReplacements env config = concat (map (\<lambda>r. fst (snd r)) (refreshRounds env config))"

text \<open>
  The released names that update restores: those that no record lists any more after
  the loop. The catalog of available skills is not consulted here.
\<close>

definition updateToRestore :: "Env \<Rightarrow> Config \<Rightarrow> string list" where
  "updateToRestore env config =
     (let stillReplacedByOthers = collectReplaced (refreshedExtensions env config)
      in filter (\<lambda>s. s \<notin> set stillReplacedByOthers) (failedReplacements env config))"

definition updateSavedConfig :: "Env \<Rightarrow> Config \<Rightarrow> Config" where
  "updateSavedConfig env config =
     config\<lparr>configVersion := getCurrentVersion env,
            agents := updatedAgents env config,
            extensions := (case extensions config of None \<Rightarrow> None
                           | Some es \<Rightarrow> Some (refreshedExtensions env config))\<rparr>"

definition updateBeforeSave :: "Env \<Rightarrow> Config \<Rightarrow> effect list" where
  "updateBeforeSave env config =
     map (\<lambda>a. UpdateSkills (agentId a) (collectReplaced (orEmpty (extensions config)))) (agents config)
     @ concat (map fst (refreshRounds env config))
     @ (if failedReplacements env config \<noteq> [] \<and> updateToRestore env config \<noteq> []
        then map (\<lambda>a. InstallSkills (agentId a) (updateToRestore env config)) (updatedAgents env config)
        else [])
     @ (if orEmpty (extensions config) \<noteq> []
        then map (\<lambda>a. ApplyExtensionInjections (agentId a) (map name (refreshedExtensions env config)))
               (updatedAgents env config)
        else [])"

definition updateCommand :: "Env \<Rightarrow> Config option \<Rightarrow> effect list \<times> (error + Config)" where
  "updateCommand env cfg =
     (case cfg of
        None \<Rightarrow> ([], Inl NoConfig)
      | Some config \<Rightarrow>
         (updateBeforeSave env config @ [SaveConfig (updateSavedConfig env config)],
          Inr (updateSavedConfig env config)))"

section \<open>Remove: extensionRemoveCommand\<close>

text \<open>\<^verbatim>\<open>extensions.filter((_, i) => i !== index)\<close>, and \<^verbatim>\<open>extensions.splice(index, 1)\<close>.\<close>

definition removeAt :: "nat \<Rightarrow> 'a list \<Rightarrow> 'a list" where
  "removeAt i xs = take i xs @ drop (Suc i) xs"

text \<open>
  The base skills that remove restores: those of the removed record that are in the
  catalog and that no other record lists.
\<close>

definition removeToRestore :: "Env \<Rightarrow> ExtensionRecord list \<Rightarrow> nat \<Rightarrow> string list" where
  "removeToRestore env exts index =
     (let otherExtensions = removeAt index exts;
          stillReplaced = collectReplaced otherExtensions
      in filter (\<lambda>s. s \<in> set (getAvailableSkills env) \<and> s \<notin> set stillReplaced)
           (orEmpty (replacedSkills (exts ! index))))"

definition removeBeforeSave :: "Env \<Rightarrow> Config \<Rightarrow> string \<Rightarrow> nat \<Rightarrow> effect list" where
  "removeBeforeSave env config n index =
     (let exts = orEmpty (extensions config);
          ags = agents config;
          manifest = loadExtensionManifest env n;
          extRecord = exts ! index;
          rs = orEmpty (replacedSkills extRecord)
      in map (\<lambda>a. case manifest of
                     Some m \<Rightarrow> StripAllExtensionInjections (agentId a) n
                   | None \<Rightarrow> StripInjectionsByExtensionName (agentId a) n) ags
         @ (if rs \<noteq> [] then map (\<lambda>a. RemoveExtensionSkills (agentId a) rs) ags else [])
         @ (case manifest of
              None \<Rightarrow> []
            | Some m \<Rightarrow>
               (let sk = orEmpty (skills m) in
                if sk \<noteq> [] then
                  (let replacesPaths = map fst (orEmpty (replaces m));
                       customSkillPaths = filter (\<lambda>s. s \<notin> set replacesPaths) sk in
                   if customSkillPaths \<noteq> []
                   then map (\<lambda>a. RemoveExtensionSkills (agentId a) customSkillPaths) ags
                   else [])
                else []))
         @ (if rs \<noteq> [] \<and> removeToRestore env exts index \<noteq> []
            then map (\<lambda>a. InstallSkills (agentId a) (removeToRestore env exts index)) ags
            else [])
         @ (case manifest of
              None \<Rightarrow> []
            | Some m \<Rightarrow>
               (let srvs = orEmpty (mcpServers m) in
                if srvs \<noteq> []
                then map (\<lambda>a. RemoveExtensionMcpServers (agentId a) (map key srvs)) ags
                else []))
         @ [RemoveExtensionFiles n])"

definition extensionRemoveCommand ::
  "Env \<Rightarrow> Config option \<Rightarrow> string \<Rightarrow> effect list \<times> (error + Config)" where
  "extensionRemoveCommand env cfg n =
     (case cfg of
        None \<Rightarrow> ([], Inl NoConfig)
      | Some config \<Rightarrow>
         (case findIndex (\<lambda>e. name e = n) (orEmpty (extensions config)) of
            None \<Rightarrow> ([], Inl (NotInstalled n))
          | Some index \<Rightarrow>
             (let config' = config\<lparr>extensions := Some (removeAt index (orEmpty (extensions config)))\<rparr>
              in (removeBeforeSave env config n index @ [SaveConfig config'], Inr config'))))"

section \<open>Sequences of operations on the store\<close>

text \<open>
  An operation carries the behaviour of the collaborators during that run. A command
  that exits with an error has not saved, so the store is what it was; otherwise the
  store is the configuration the command saved. (A run that a throwing collaborator
  interrupts leaves one of these two stores: the old one when the throw comes before the
  save, the saved one when it comes after.)
\<close>

datatype operation = Install Env string | Update Env | Remove Env string

definition persisted :: "Config \<Rightarrow> effect list \<times> (error + Config) \<Rightarrow> Config" where
  "persisted c r = (case snd r of Inl e \<Rightarrow> c | Inr c' \<Rightarrow> c')"

fun applyOperation :: "Config \<Rightarrow> operation \<Rightarrow> Config" where
  "applyOperation c (Install env src) = persisted c (extensionAddCommand env (Some c) src)"
| "applyOperation c (Update env) = persisted c (updateCommand env (Some c))"
| "applyOperation c (Remove env n) = persisted c (extensionRemoveCommand env (Some c) n)"

text \<open>
  Ownership is exclusive in a store when no base skill is listed by two records of
  different extensions; the store identifies an extension by its name.
\<close>

definition ownershipExclusive :: "Config \<Rightarrow> bool" where
  "ownershipExclusive c =
     (\<forall>e1\<in>set (orEmpty (extensions c)). \<forall>e2\<in>set (orEmpty (extensions c)).
        name e1 \<noteq> name e2 \<longrightarrow>
        set (orEmpty (replacedSkills e1)) \<inter> set (orEmpty (replacedSkills e2)) = {})"

section \<open>Runs that a throwing collaborator interrupts\<close>

text \<open>
  The three commands above describe the run in which every collaborator returns. All
  their calls to collaborators stand inside a \<^verbatim>\<open>try\<close> block whose \<^verbatim>\<open>catch\<close> clause
  prints the error and exits with status 1. When a collaborator throws, the effects
  logged so far have been caused and the rest of the run is skipped; \<open>thrown = Some j\<close>
  is the run in which \<open>j\<close> effects were caused before the throw reached the handler
  (the call that threw counts as caused: it may have written before it threw). In
  \<^verbatim>\<open>extensionAddCommand\<close> the inner \<^verbatim>\<open>finally\<close> clause still removes the temporary
  copy of the resolved source, so the log of an interrupted run ends with
  \<open>Cleanup\<close>; when \<open>j\<close> reaches the end of the log it is that last call which
  threw. \<^verbatim>\<open>updateCommand\<close> and \<^verbatim>\<open>extensionRemoveCommand\<close> have no \<^verbatim>\<open>finally\<close> clause.
  The exits before the \<^verbatim>\<open>try\<close> block and the errors thrown by the command itself are
  the error results of the commands above.
\<close>

datatype outcome = Finished "error + Config" | CollaboratorThrew

definition extensionAddRun ::
  "Env \<Rightarrow> Config option \<Rightarrow> string \<Rightarrow> nat option \<Rightarrow> effect list \<times> outcome" where
  "extensionAddRun env cfg src thrown =
     (case extensionAddCommand env cfg src of
        (log, Inr config') \<Rightarrow>
          (case thrown of
             None \<Rightarrow> (log, Finished (Inr config'))
           | Some j \<Rightarrow> (take j (butlast log) @ [Cleanup], CollaboratorThrew))
      | (log, Inl e) \<Rightarrow> (log, Finished (Inl e)))"

definition updateRun :: "Env \<Rightarrow> Config option \<Rightarrow> nat option \<Rightarrow> effect list \<times> outcome" where
  "updateRun env cfg thrown =
     (case updateCommand env cfg of
        (log, Inr config') \<Rightarrow>
          (case thrown of
             None \<Rightarrow> (log, Finished (Inr config'))
           | Some j \<Rightarrow> (take j log, CollaboratorThrew))
      | (log, Inl e) \<Rightarrow> (log, Finished (Inl e)))"

definition extensionRemoveRun ::
  "Env \<Rightarrow> Config option \<Rightarrow> string \<Rightarrow> nat option \<Rightarrow> effect list \<times> outcome" where
  "extensionRemoveRun env cfg n thrown =
     (case extensionRemoveCommand env cfg n of
        (log, Inr config') \<Rightarrow>
          (case thrown of
             None \<Rightarrow> (log, Finished (Inr config'))
           | Some j \<Rightarrow> (take j log, CollaboratorThrew))
      | (log, Inl e) \<Rightarrow> (log, Finished (Inl e)))"

section \<open>Reading the log of effects\<close>

text \<open>The effects that act on one agent: those that carry an agent id.\<close>

fun perAgentEffect :: "effect \<Rightarrow> bool" where
  "perAgentEffect (CommitExtensionInstall n) = False"
| "perAgentEffect (RemoveExtensionFiles n) = False"
| "perAgentEffect (SaveConfig c) = False"
| "perAgentEffect Cleanup = False"
| "perAgentEffect e = True"

fun isSave :: "effect \<Rightarrow> bool" where
  "isSave (SaveConfig c) = True"
| "isSave e = False"

fun injectionOrMcp :: "effect \<Rightarrow> bool" where
  "injectionOrMcp (ApplySingleExtensionInjections a n) = True"
| "injectionOrMcp (ConfigureExtensionMcpServers a k) = True"
| "injectionOrMcp Cleanup = True"
| "injectionOrMcp e = False"

text \<open>The calls to \<^verbatim>\<open>installSkills\<close>, which copy base skills of the package to an agent.\<close>

fun isInstallSkills :: "effect \<Rightarrow> bool" where
  "isInstallSkills (InstallSkills a ss) = True"
| "isInstallSkills e = False"

text \<open>The effects that follow the first save of the configuration.\<close>

fun afterSave :: "effect list \<Rightarrow> effect list" where
  "afterSave [] = []"
| "afterSave (e # es) = (if isSave e then es else afterSave es)"

text \<open>A log in which no effect on an agent follows the save.\<close>

definition savedAfterAgentEffects :: "effect list \<Rightarrow> bool" where
  "savedAfterAgentEffects log = list_all (\<lambda>e. \<not> perAgentEffect e) (afterSave log)"

section \<open>Marker blocks in skill files\<close>

text \<open>
  A JavaScript string is the list of its UTF-16 code units, each given by its number; \<open>js\<close>
  turns a literal of the source into such a list. The regular expressions of the source
  carry no \<^verbatim>\<open>u\<close> flag, so they too work on code units.
\<close>

type_synonym jstring = "nat list"

definition js :: "string \<Rightarrow> jstring" where
  "js s = map of_char s"

abbreviation NL :: nat where
  "NL \<equiv> 10"

text \<open>
  \<^verbatim>\<open>String.prototype.trimEnd\<close> removes the trailing white space and line terminators of
  ECMAScript: TAB, VT, FF, SP, NBSP, ZWNBSP, the space separators of Unicode, and LF, CR,
  LS, PS.
\<close>

definition isWhiteSpace :: "nat \<Rightarrow> bool" where
  "isWhiteSpace c =
     (c \<in> {0x09, 0x0A, 0x0B, 0x0C, 0x0D, 0x20, 0xA0, 0x1680, 0x2028, 0x2029, 0x202F, 0x205F,
            0x3000, 0xFEFF}
      \<or> (0x2000 \<le> c \<and> c \<le> 0x200A))"

definition trimEnd :: "jstring \<Rightarrow> jstring" where
  "trimEnd xs = rev (dropWhile isWhiteSpace (rev xs))"

definition positionName :: "position \<Rightarrow> jstring" where
  "positionName p = (case p of Append \<Rightarrow> js ''append'' | Prepend \<Rightarrow> js ''prepend'')"

definition startMarker :: "jstring \<Rightarrow> jstring \<Rightarrow> jstring \<Rightarrow> jstring" where
  "startMarker extensionName skillName position =
     js ''<!-- aif-ext:'' @ extensionName @ js '':'' @ skillName @ js '':'' @ position
     @ js '':start -->''"

definition endMarker :: "jstring \<Rightarrow> jstring \<Rightarrow> jstring \<Rightarrow> jstring" where
  "endMarker extensionName skillName position =
     js ''<!-- aif-ext:'' @ extensionName @ js '':'' @ skillName @ js '':'' @ position
     @ js '':end -->''"

text \<open>The first index at which a literal pattern occurs in a text.\<close>

fun indexOf :: "jstring \<Rightarrow> jstring \<Rightarrow> nat option" where
  "indexOf pat [] = (if pat = [] then Some 0 else None)"
| "indexOf pat (x # xs) =
     (if prefix pat (x # xs) then Some 0 else map_option Suc (indexOf pat xs))"

text \<open>
  \<^verbatim>\<open>markerRegex\<close> escapes both markers, so they match as literal text. The expression is
  \<^verbatim>\<open>\n?START\n[\s\S]*?\nEND\n?\<close>. \<open>matchMarked\<close> is the match of the part after the
  optional leading line feed at the start of a text, as the length matched: the start
  marker and a line feed, the shortest run of any code units up to a line feed followed
  by the end marker, and one more line feed if there is one.
\<close>

definition matchMarked :: "jstring \<Rightarrow> jstring \<Rightarrow> jstring \<Rightarrow> nat option" where
  "matchMarked S E xs =
     (if prefix (S @ [NL]) xs then
        (case indexOf (NL # E) (drop (length S + 1) xs) of
           None \<Rightarrow> None
         | Some k \<Rightarrow>
            (let j = length S + 1 + k + 1 + length E
             in Some (if take 1 (drop j xs) = [NL] then j + 1 else j)))
      else None)"

text \<open>
  The whole expression at the start of a text: the greedy \<^verbatim>\<open>\n?\<close> first takes a line
  feed if there is one, and gives it back if the rest does not match after it.
\<close>

definition matchAt :: "jstring \<Rightarrow> jstring \<Rightarrow> jstring \<Rightarrow> nat option" where
  "matchAt S E xs =
     (case (case xs of [] \<Rightarrow> None
            | c # ys \<Rightarrow> if c = NL then map_option Suc (matchMarked S E ys) else None) of
        Some n \<Rightarrow> Some n
      | None \<Rightarrow> matchMarked S E xs)"

text \<open>
  \<^verbatim>\<open>content.replace(regex, '')\<close> with a global expression: from left to right, the
  leftmost match is removed and the search resumes after it. A match is never empty.
\<close>

fun replaceMatches :: "(jstring \<Rightarrow> nat option) \<Rightarrow> jstring \<Rightarrow> jstring" where
  "replaceMatches m [] = []"
| "replaceMatches m (x # xs) =
     (case m (x # xs) of
        Some n \<Rightarrow> replaceMatches m (drop (n - 1) xs)
      | None \<Rightarrow> x # replaceMatches m xs)"

definition stripInjection :: "jstring \<Rightarrow> jstring \<Rightarrow> jstring \<Rightarrow> jstring \<Rightarrow> jstring" where
  "stripInjection content extensionName skillName position =
     replaceMatches (matchAt (startMarker extensionName skillName position)
                             (endMarker extensionName skillName position)) content"

text \<open>
  \<^verbatim>\<open>content.match(/^---\n[\s\S]*?\n---\n/)\<close>: the length of the front matter at the
  start of the content, if there is one.
\<close>

definition frontMatter :: "jstring \<Rightarrow> nat option" where
  "frontMatter content =
     (if prefix (js ''---'' @ [NL]) content then
        (case indexOf (NL # js ''---'' @ [NL]) (drop 4 content) of
           None \<Rightarrow> None
         | Some k \<Rightarrow> Some (4 + k + 5))
      else None)"

definition applyInjection :: "jstring \<Rightarrow> jstring \<Rightarrow> position \<Rightarrow> jstring \<Rightarrow> jstring \<Rightarrow> jstring" where
  "applyInjection skillContent injectionContent position extensionName skillName =
     (let p = positionName position;
          content = stripInjection skillContent extensionName skillName p;
          block = startMarker extensionName skillName p @ [NL] @ trimEnd injectionContent @ [NL]
                  @ endMarker extensionName skillName p
      in case position of
           Append \<Rightarrow> trimEnd content @ [NL, NL] @ block @ [NL]
         | Prepend \<Rightarrow>
            (case frontMatter content of
               Some afterFm \<Rightarrow> take afterFm content @ [NL] @ block @ [NL] @ drop afterFm content
             | None \<Rightarrow> block @ [NL, NL] @ content))"

section \<open>Marker blocks by extension name\<close>







section \<open>The files of the agents\<close>
























section \<open>Concrete scenarios\<close>

definition agentOne :: AgentInstallation where
  "agentOne = \<lparr> agentId = ''claude'', skillsDir = ''.claude/skills'', installedSkills = [''aif-commit''] \<rparr>"

definition agentTwo :: AgentInstallation where
  "agentTwo = \<lparr> agentId = ''codex'', skillsDir = ''.codex/skills'', installedSkills = [''aif-commit''] \<rparr>"

definition recordA :: ExtensionRecord where
  "recordA = \<lparr> name = ''A'', source = ''./a'', version = ''1.0.0'', replacedSkills = Some [''shared''] \<rparr>"

definition manifestB :: ExtensionManifest where
  "manifestB = \<lparr> manifestName = ''B'', manifestVersion = ''0.1.0'', skills = Some [''p''],
       replaces = Some [(''p'', ''shared'')], injections = None, mcpServers = None \<rparr>"

definition helloCommit :: ExtensionManifest where
  "helloCommit = \<lparr> manifestName = ''hello-commit'', manifestVersion = ''1.0.0'',
       skills = Some [''skills/my-commit''],
       replaces = Some [(''skills/my-commit'', ''aif-commit'')],
       injections = Some [\<lparr> target = ''aif-plan'', pos = Append, injFile = ''inj.md'' \<rparr>],
       mcpServers = None \<rparr>"

text \<open>
  An environment that resolves every source to the given manifest, finds the given
  manifest (or none) in durable storage, and whose installer reports what \<open>inst\<close> says.
\<close>

definition envOf ::
  "ExtensionManifest \<Rightarrow> ExtensionManifest option \<Rightarrow> (AgentInstallation \<Rightarrow> string list) \<Rightarrow> Env" where
  "envOf m stored inst =
     \<lparr> resolveExtension = (\<lambda>src. Inr m),
       loadExtensionManifest = (\<lambda>n. stored),
       installExtensionSkills = (\<lambda>a ext paths overrides. inst a),
       getAvailableSkills = [''aif-commit'', ''aif-plan''],
       updateSkills = (\<lambda>a excluded. filter (\<lambda>s. s \<notin> set excluded) [''aif-commit'', ''aif-plan'']),
       getCurrentVersion = ''2.2.0'',
       readJsonFile = (\<lambda>ext t. True),
       supportsMcp = (\<lambda>i. True) \<rparr>"

definition configOf :: "AgentInstallation list \<Rightarrow> ExtensionRecord list \<Rightarrow> Config" where
  "configOf ags exts = \<lparr> configVersion = ''2.1.0'', agents = ags, extensions = Some exts \<rparr>"


definition recordHello :: ExtensionRecord where
  "recordHello = \<lparr> name = ''hello-commit'', source = ''./hello'', version = ''1.0.0'',
       replacedSkills = Some [''aif-commit''] \<rparr>"

definition installsEverywhere :: "AgentInstallation \<Rightarrow> string list" where
  "installsEverywhere a = [''aif-commit'']"

definition recordLegacy :: ExtensionRecord where
  "recordLegacy = \<lparr> name = ''X'', source = ''./x'', version = ''0.9.0'',
       replacedSkills = Some [''legacy''] \<rparr>"

definition contentWithEndMarker :: jstring where
  "contentWithEndMarker =
     js ''a'' @ [NL] @ endMarker (js ''e'') (js ''s'') (positionName Append) @ [NL] @ js ''b''"

definition docWithFrontMatter :: jstring where
  "docWithFrontMatter = js ''---'' @ [NL] @ js ''name: plan'' @ [NL] @ js ''---'' @ [NL] @ js ''Body'' @ [NL]"





definition manifestX :: ExtensionManifest where
  "manifestX = \<lparr> manifestName = ''X'', manifestVersion = ''1.0.0'', skills = None,
       replaces = None, injections = None, mcpServers = None \<rparr>"






section \<open>Conflict rejection\<close>

lemma findConflict_Some:
  assumes "(p, b) \<in> set entries" "other \<in> set exts" "name other \<noteq> n"
    "b \<in> set (orEmpty (replacedSkills other))"
  shows "\<exists>b' o'. findConflict n entries exts = Some (b', o')"
  using assms
proof (induction entries)
  case Nil
  then show ?case by simp
next
  case (Cons e entries)
  obtain p' b' where e: "e = (p', b')" by (cases e)
  show ?case
  proof (cases "find (\<lambda>other. name other \<noteq> n \<and> b' \<in> set (orEmpty (replacedSkills other))) exts")
    case (Some a)
    then show ?thesis by (simp add: e)
  next
    case None
    then have "\<not> (\<exists>x. x \<in> set exts \<and> name x \<noteq> n \<and> b' \<in> set (orEmpty (replacedSkills x)))"
      by (simp add: find_None_iff)
    with Cons.prems(2-4) have "b \<noteq> b'" by blast
    with Cons.prems(1) e have "(p, b) \<in> set entries" by simp
    from Cons.IH[OF this Cons.prems(2-4)] show ?thesis by (simp add: e None)
  qed
qed

text \<open>
  C3. When a base skill named in the new manifest's \<open>replaces\<close> is already listed in the
  \<open>replacedSkills\<close> of a recorded extension with a different name, the install fails
  with a conflict error; the only effect is the removal of the temporary copy of the
  resolved source: nothing is copied into extension storage, no agent file is touched,
  and the configuration is not saved.
\<close>

theorem conflict_rejection:
  assumes "resolveExtension env src = Inr manifest"
    and "(p, b) \<in> set (orEmpty (replaces manifest))"
    and "other \<in> set (orEmpty (extensions config))"
    and "name other \<noteq> manifestName manifest"
    and "b \<in> set (orEmpty (replacedSkills other))"
  shows "\<exists>b' o'. extensionAddCommand env (Some config) src = ([Cleanup], Inl (Conflict b' o'))"
proof -
  from findConflict_Some[OF assms(2-5)] obtain b' o' where
    "findConflict (manifestName manifest) (orEmpty (replaces manifest)) (orEmpty (extensions config))
       = Some (b', o')" by blast
  then have "extensionAddCommand env (Some config) src = ([Cleanup], Inl (Conflict b' o'))"
    by (simp add: extensionAddCommand_def assms(1) Let_def)
  then show ?thesis by blast
qed

theorem conflict_rejection_witness:
  "extensionAddCommand (envOf manifestB None (\<lambda>a. [])) (Some (configOf [agentOne, agentTwo] [recordA])) ''./b''
     = ([Cleanup], Inl (Conflict ''shared'' ''A''))"
proof -
  have "\<exists>b' o'. extensionAddCommand (envOf manifestB None (\<lambda>a. []))
          (Some (configOf [agentOne, agentTwo] [recordA])) ''./b'' = ([Cleanup], Inl (Conflict b' o'))"
    by (rule conflict_rejection[where manifest = manifestB and p = "''p''" and b = "''shared''"
          and other = recordA])
       (simp_all add: envOf_def manifestB_def configOf_def recordA_def orEmpty_def)
  then show ?thesis
    by (simp add: extensionAddCommand_def envOf_def manifestB_def configOf_def recordA_def
        orEmpty_def Let_def)
qed


section \<open>Counting per-agent successes\<close>

lemma foldl_bump_count:
  "successCount (foldl bump m xs) b = successCount m b + count_list xs b"
  by (induction xs arbitrary: m) (auto simp: successCount_def bump_def split: option.splits)

lemma perAgentResults_count:
  "successCount (foldl (\<lambda>m a. foldl bump m (f a)) m ags) b
     = successCount m b + sum_list (map (\<lambda>a. count_list (f a) b) ags)"
  by (induction ags arbitrary: m) (auto simp: foldl_bump_count)

lemma successCount_perAgentResults:
  "successCount (perAgentResults env ags ext paths ov) b
     = sum_list (map (\<lambda>a. count_list (installExtensionSkills env a ext paths ov) b) ags)"
  by (simp add: perAgentResults_def perAgentResults_count) (simp add: successCount_def)

lemma count_list_distinct: "distinct xs \<Longrightarrow> count_list xs b = (if b \<in> set xs then 1 else 0)"
  by (induction xs) auto

lemma sum_indicator_length:
  "sum_list (map (\<lambda>a. if P a then (1::nat) else 0) ags) = length (filter P ags)"
  by (induction ags) auto

lemma filter_length_eq_iff: "length (filter P xs) = length xs \<longleftrightarrow> (\<forall>x\<in>set xs. P x)"
proof -
  have "length (filter P xs) = length xs \<longleftrightarrow> length (filter (\<lambda>x. \<not> P x) xs) = 0"
    using sum_length_filter_compl[of P xs] by arith
  then show ?thesis by (simp add: filter_empty_conv)
qed

lemma sum_count_distinct:
  "\<forall>a\<in>set ags. distinct (f a) \<Longrightarrow>
   sum_list (map (\<lambda>a. count_list (f a) b) ags) = length (filter (\<lambda>a. b \<in> set (f a)) ags)"
  by (induction ags) (auto simp: count_list_distinct)

lemma successCount_distinct:
  assumes "\<forall>a\<in>set ags. distinct (installedFor env manifest a)"
  shows "successCount (perAgentResults env ags (manifestName manifest)
            (map fst (orEmpty (replaces manifest))) (orEmpty (replaces manifest))) b
         = length (filter (\<lambda>a. b \<in> set (installedFor env manifest a)) ags)"
  using sum_count_distinct[OF assms, of b]
  by (simp add: successCount_perAgentResults installedFor_def)

lemma reconcile_replaced:
  "snd (reconcileReplacements env ags m entries)
     = filter (\<lambda>b. successCount m b = length ags) (map snd entries)"
  by (induction entries) (auto simp: Let_def split: prod.splits)

lemma findIndex_Some: "findIndex P xs = Some i \<Longrightarrow> i < length xs \<and> P (xs ! i)"
  by (induction xs arbitrary: i) (auto split: if_splits)

lemma findIndex_None: "findIndex P xs = None \<Longrightarrow> \<forall>x\<in>set xs. \<not> P x"
  by (induction xs) (auto split: if_splits)

lemma newRecord_saved:
  "newRecord manifest src (snd (installReplacements env (agents config) manifest))
     \<in> set (orEmpty (extensions (addSavedConfig env config manifest src)))"
  by (auto simp: addSavedConfig_def Let_def orEmpty_def set_update_memI
      dest: findIndex_Some split: option.splits)

lemma installReplacements_snd:
  "snd (installReplacements env ags manifest)
     = filter (\<lambda>b. successCount (perAgentResults env ags (manifestName manifest)
            (map fst (orEmpty (replaces manifest))) (orEmpty (replaces manifest))) b = length ags)
         (map snd (orEmpty (replaces manifest)))"
  by (simp add: installReplacements_def Let_def case_prod_beta reconcile_replaced)

section \<open>Partial-agent rollback\<close>





lemma full_iff:
  assumes dist: "\<forall>a\<in>set ags. distinct (installedFor env manifest a)"
  shows "successCount (perAgentResults env ags (manifestName manifest)
            (map fst (orEmpty (replaces manifest))) (orEmpty (replaces manifest))) b = length ags
       \<longleftrightarrow> (\<forall>a\<in>set ags. b \<in> set (installedFor env manifest a))"
  unfolding successCount_distinct[OF dist] filter_length_eq_iff ..


lemma installReplacements_names:
  assumes dist: "\<forall>a\<in>set ags. distinct (installedFor env manifest a)"
  shows "snd (installReplacements env ags manifest)
     = filter (\<lambda>b. \<forall>a\<in>set ags. b \<in> set (installedFor env manifest a))
         (map snd (orEmpty (replaces manifest)))"
  by (simp add: installReplacements_snd full_iff[OF dist])

lemma addSavedConfig_store:
  "extensions (addSavedConfig env config manifest src)
     = Some (case findIndex (\<lambda>e. name e = manifestName manifest) (orEmpty (extensions config)) of
               None \<Rightarrow> orEmpty (extensions config)
                        @ [newRecord manifest src (snd (installReplacements env (agents config) manifest))]
             | Some i \<Rightarrow> (orEmpty (extensions config))
                        [i := newRecord manifest src (snd (installReplacements env (agents config) manifest))])"
  by (simp add: addSavedConfig_def Let_def)







lemma reconcile_no_agents:
  "reconcileReplacements env [] Map.empty entries = ([], map snd entries)"
  by (induction entries) (auto simp: successCount_def)

lemma installReplacements_no_agents:
  "installReplacements env [] manifest = ([], map snd (orEmpty (replaces manifest)))"
  by (simp add: installReplacements_def perAgentResults_def reconcile_no_agents Let_def)

section \<open>Install with no configured agent\<close>

text \<open>
  C10. With an empty agent list, an install that passes resolution and the conflict check
  calls the installer for no agent and saves, in the place of the old record or at the
  end of the store, a record with the name and version of the manifest and the given
  source whose \<open>replacedSkills\<close> field holds every base skill of the manifest's
  \<open>replaces\<close>, in order (the field is left undefined when \<open>replaces\<close> has no entry).
\<close>

theorem empty_agents_record_all:
  assumes ags: "agents config = []"
    and res: "resolveExtension env src = Inr manifest"
    and noc: "findConflict (manifestName manifest) (orEmpty (replaces manifest))
                (orEmpty (extensions config)) = None"
  shows "\<exists>log config' r.
      extensionAddCommand env (Some config) src = (log, Inr config')
    \<and> SaveConfig config' \<in> set log
    \<and> (\<forall>a e ps ov. InstallExtensionSkills a e ps ov \<notin> set log)
    \<and> extensions config'
         = Some (case findIndex (\<lambda>e. name e = manifestName manifest) (orEmpty (extensions config)) of
                   None \<Rightarrow> orEmpty (extensions config) @ [r]
                 | Some i \<Rightarrow> (orEmpty (extensions config))[i := r])
    \<and> name r = manifestName manifest \<and> source r = src \<and> version r = manifestVersion manifest
    \<and> replacedSkills r = (if orEmpty (replaces manifest) = [] then None
                           else Some (map snd (orEmpty (replaces manifest))))"
proof -
  let ?r = "\<lparr> name = manifestName manifest, source = src, version = manifestVersion manifest,
              replacedSkills = (if orEmpty (replaces manifest) = [] then None
                               else Some (map snd (orEmpty (replaces manifest)))) \<rparr>"
  let ?c = "addSavedConfig env config manifest src"
  let ?log = "addBeforeSave env config manifest @ [SaveConfig ?c] @ addAfterSave env config manifest"
  have run: "extensionAddCommand env (Some config) src = (?log, Inr ?c)"
    by (simp add: extensionAddCommand_def res noc)
  have pre: "addBeforeSave env config manifest = [CommitExtensionInstall (manifestName manifest)]"
    by (simp add: addBeforeSave_def ags installReplacements_no_agents installCustomSkills_def
        cleanupOldState_def Let_def split: option.splits)
  have post: "addAfterSave env config manifest = [Cleanup]"
    by (auto simp: addAfterSave_def ags applyInjectionsAll_def applyExtensionMcp_def)
  have rec: "newRecord manifest src (snd (installReplacements env (agents config) manifest)) = ?r"
    by (simp add: newRecord_def ags installReplacements_no_agents)
  have saved: "extensions ?c
         = Some (case findIndex (\<lambda>e. name e = manifestName manifest) (orEmpty (extensions config)) of
                   None \<Rightarrow> orEmpty (extensions config) @ [?r]
                 | Some i \<Rightarrow> (orEmpty (extensions config))[i := ?r])"
    unfolding addSavedConfig_def Let_def rec by simp
  have mem: "SaveConfig ?c \<in> set ?log" by simp
  have none: "\<forall>a e ps ov. InstallExtensionSkills a e ps ov \<notin> set ?log"
    by (simp add: pre post)
  show ?thesis
    by (rule exI[of _ ?log], rule exI[of _ ?c], rule exI[of _ ?r])
       (simp only: run mem none saved ExtensionRecord.simps simp_thms)
qed

theorem empty_agents_record_all_witness:
  "\<exists>log config'.
      extensionAddCommand (envOf helloCommit None (\<lambda>a. [])) (Some (configOf [] [])) ''./hello''
        = (log, Inr config')
    \<and> SaveConfig config' \<in> set log
    \<and> (\<forall>a e ps ov. InstallExtensionSkills a e ps ov \<notin> set log)
    \<and> extensions config'
        = Some [\<lparr> name = ''hello-commit'', source = ''./hello'', version = ''1.0.0'',
                  replacedSkills = Some [''aif-commit''] \<rparr>]"
proof -
  let ?env = "envOf helloCommit None (\<lambda>a. [])" and ?c = "configOf [] []"
  have a: "agents ?c = []" by (simp add: configOf_def)
  have r: "resolveExtension ?env ''./hello'' = Inr helloCommit" by (simp add: envOf_def)
  have n: "findConflict (manifestName helloCommit) (orEmpty (replaces helloCommit))
                (orEmpty (extensions ?c)) = None"
    by (simp add: helloCommit_def configOf_def orEmpty_def)
  from empty_agents_record_all[OF a r n] obtain log config' rec where
    run: "extensionAddCommand ?env (Some ?c) ''./hello'' = (log, Inr config')"
    and sv: "SaveConfig config' \<in> set log"
    and no: "\<forall>a e ps ov. InstallExtensionSkills a e ps ov \<notin> set log"
    and ex: "extensions config'
         = Some (case findIndex (\<lambda>e. name e = manifestName helloCommit) (orEmpty (extensions ?c)) of
                   None \<Rightarrow> orEmpty (extensions ?c) @ [rec]
                 | Some i \<Rightarrow> (orEmpty (extensions ?c))[i := rec])"
    and f: "name rec = manifestName helloCommit" "source rec = ''./hello''"
       "version rec = manifestVersion helloCommit"
       "replacedSkills rec = (if orEmpty (replaces helloCommit) = [] then None
                           else Some (map snd (orEmpty (replaces helloCommit))))"
    by blast
  have "rec = \<lparr> name = ''hello-commit'', source = ''./hello'', version = ''1.0.0'',
                  replacedSkills = Some [''aif-commit''] \<rparr>"
    using f by (cases rec) (simp add: helloCommit_def orEmpty_def)
  with ex have "extensions config'
        = Some [\<lparr> name = ''hello-commit'', source = ''./hello'', version = ''1.0.0'',
                  replacedSkills = Some [''aif-commit''] \<rparr>]"
    by (simp add: configOf_def orEmpty_def)
  with run sv no show ?thesis by blast
qed

section \<open>Restoration on remove\<close>










section \<open>Ownership exclusivity\<close>

lemma findConflict_None:
  "findConflict n entries exts = None \<Longrightarrow> (p, b) \<in> set entries \<Longrightarrow> other \<in> set exts
   \<Longrightarrow> name other \<noteq> n \<Longrightarrow> b \<notin> set (orEmpty (replacedSkills other))"
  using findConflict_Some[of p b entries other exts n] by auto

lemma exclusive_shrink:
  assumes "ownershipExclusive c"
    and "\<forall>e'\<in>set (orEmpty (extensions c')). \<exists>e\<in>set (orEmpty (extensions c)).
           name e = name e' \<and> set (orEmpty (replacedSkills e')) \<subseteq> set (orEmpty (replacedSkills e))"
  shows "ownershipExclusive c'"
  unfolding ownershipExclusive_def
proof (intro ballI impI)
  fix e1 e2
  assume e1: "e1 \<in> set (orEmpty (extensions c'))" and e2: "e2 \<in> set (orEmpty (extensions c'))"
    and ne: "name e1 \<noteq> name e2"
  from assms(2) e1 obtain f1 where f1: "f1 \<in> set (orEmpty (extensions c))" "name f1 = name e1"
    "set (orEmpty (replacedSkills e1)) \<subseteq> set (orEmpty (replacedSkills f1))" by blast
  from assms(2) e2 obtain f2 where f2: "f2 \<in> set (orEmpty (extensions c))" "name f2 = name e2"
    "set (orEmpty (replacedSkills e2)) \<subseteq> set (orEmpty (replacedSkills f2))" by blast
  from assms(1) f1 f2 ne have "set (orEmpty (replacedSkills f1)) \<inter> set (orEmpty (replacedSkills f2)) = {}"
    unfolding ownershipExclusive_def by metis
  with f1(3) f2(3) show "set (orEmpty (replacedSkills e1)) \<inter> set (orEmpty (replacedSkills e2)) = {}"
    by blast
qed

lemma refresh_name: "name (snd (snd (refreshReplacement env ags e))) = name e"
  by (simp add: refreshReplacement_def Let_def split: option.splits)

lemma refresh_shrinks:
  "set (orEmpty (replacedSkills (snd (snd (refreshReplacement env ags e)))))
     \<subseteq> set (orEmpty (replacedSkills e))"
  by (auto simp: refreshReplacement_def Let_def orEmpty_def split: option.splits)

lemma update_extensions:
  "orEmpty (extensions (persisted c (updateCommand env (Some c)))) = refreshedExtensions env c"
  by (cases "extensions c")
     (simp_all add: persisted_def updateCommand_def updateSavedConfig_def refreshedExtensions_def
       refreshRounds_def orEmpty_def)

lemma refreshed_member:
  "e' \<in> set (refreshedExtensions env c) \<Longrightarrow>
   \<exists>e\<in>set (orEmpty (extensions c)). e' = snd (snd (refreshReplacement env (updatedAgents env c) e))"
  by (auto simp: refreshedExtensions_def refreshRounds_def)

lemma update_exclusive:
  assumes "ownershipExclusive c"
  shows "ownershipExclusive (persisted c (updateCommand env (Some c)))"
proof (rule exclusive_shrink[OF assms])
  show "\<forall>e'\<in>set (orEmpty (extensions (persisted c (updateCommand env (Some c))))).
       \<exists>e\<in>set (orEmpty (extensions c)).
          name e = name e' \<and> set (orEmpty (replacedSkills e')) \<subseteq> set (orEmpty (replacedSkills e))"
    unfolding update_extensions using refresh_name refresh_shrinks refreshed_member by metis
qed

lemma set_removeAt: "set (removeAt i xs) \<subseteq> set xs"
  by (auto simp: removeAt_def dest: in_set_takeD in_set_dropD)

lemma remove_extensions:
  "orEmpty (extensions (persisted c (extensionRemoveCommand env (Some c) n)))
     = (case findIndex (\<lambda>e. name e = n) (orEmpty (extensions c)) of
          None \<Rightarrow> orEmpty (extensions c)
        | Some i \<Rightarrow> removeAt i (orEmpty (extensions c)))"
  by (simp add: persisted_def extensionRemoveCommand_def Let_def split: option.splits)
     (simp add: orEmpty_def)

lemma remove_exclusive:
  assumes "ownershipExclusive c"
  shows "ownershipExclusive (persisted c (extensionRemoveCommand env (Some c) n))"
proof (rule exclusive_shrink[OF assms])
  show "\<forall>e'\<in>set (orEmpty (extensions (persisted c (extensionRemoveCommand env (Some c) n)))).
       \<exists>e\<in>set (orEmpty (extensions c)).
          name e = name e' \<and> set (orEmpty (replacedSkills e')) \<subseteq> set (orEmpty (replacedSkills e))"
    unfolding remove_extensions using set_removeAt[of _ "orEmpty (extensions c)"]
    by (auto split: option.splits)
qed

lemma saved_extensions:
  "set (orEmpty (extensions (addSavedConfig env c manifest src)))
     \<subseteq> insert (newRecord manifest src (snd (installReplacements env (agents c) manifest)))
          (set (orEmpty (extensions c)))"
  by (auto simp: addSavedConfig_def Let_def orEmpty_def split: option.splits
      dest: set_update_subset_insert[THEN subsetD])

lemma newRecord_fields:
  "name (newRecord manifest src replaced) = manifestName manifest"
  "set (orEmpty (replacedSkills (newRecord manifest src replaced))) = set replaced"
  by (auto simp: newRecord_def orEmpty_def)

lemma add_exclusive:
  assumes ex: "ownershipExclusive c"
  shows "ownershipExclusive (persisted c (extensionAddCommand env (Some c) src))"
proof (cases "resolveExtension env src")
  case (Inl e)
  then show ?thesis using ex by (simp add: persisted_def extensionAddCommand_def)
next
  case (Inr manifest)
  show ?thesis
  proof (cases "findConflict (manifestName manifest) (orEmpty (replaces manifest)) (orEmpty (extensions c))")
    case (Some a)
    then show ?thesis using ex Inr
      by (cases a) (simp add: persisted_def extensionAddCommand_def)
  next
    case None
    let ?new = "newRecord manifest src (snd (installReplacements env (agents c) manifest))"
    let ?c' = "addSavedConfig env c manifest src"
    have p: "persisted c (extensionAddCommand env (Some c) src) = ?c'"
      by (simp add: persisted_def extensionAddCommand_def Inr None)
    have new_old: "set (orEmpty (replacedSkills ?new)) \<inter> set (orEmpty (replacedSkills e)) = {}"
      if "e \<in> set (orEmpty (extensions c))" "name e \<noteq> manifestName manifest" for e
    proof -
      have "b \<notin> set (orEmpty (replacedSkills e))" if "b \<in> set (orEmpty (replacedSkills ?new))" for b
      proof -
        from that obtain p where "(p, b) \<in> set (orEmpty (replaces manifest))"
          by (auto simp: newRecord_fields installReplacements_snd)
        from findConflict_None[OF None this \<open>e \<in> _\<close> \<open>name e \<noteq> _\<close>] show ?thesis .
      qed
      then show ?thesis by blast
    qed
    have "ownershipExclusive ?c'"
      unfolding ownershipExclusive_def
    proof (intro ballI impI)
      fix e1 e2
      assume e1: "e1 \<in> set (orEmpty (extensions ?c'))" and e2: "e2 \<in> set (orEmpty (extensions ?c'))"
        and ne: "name e1 \<noteq> name e2"
      from e1 saved_extensions have m1: "e1 = ?new \<or> e1 \<in> set (orEmpty (extensions c))" by blast
      from e2 saved_extensions have m2: "e2 = ?new \<or> e2 \<in> set (orEmpty (extensions c))" by blast
      show "set (orEmpty (replacedSkills e1)) \<inter> set (orEmpty (replacedSkills e2)) = {}"
      proof (cases "e1 = ?new")
        case True
        with ne have "name e2 \<noteq> manifestName manifest" by (simp add: newRecord_fields)
        moreover from this m2 have "e2 \<in> set (orEmpty (extensions c))" by (auto simp: newRecord_fields)
        ultimately show ?thesis using new_old True by blast
      next
        case False
        with m1 have in1: "e1 \<in> set (orEmpty (extensions c))" by blast
        show ?thesis
        proof (cases "e2 = ?new")
          case True
          with ne have "name e1 \<noteq> manifestName manifest" by (simp add: newRecord_fields)
          with new_old[OF in1] True show ?thesis by blast
        next
          case False
          with m2 have "e2 \<in> set (orEmpty (extensions c))" by blast
          with in1 ne ex show ?thesis unfolding ownershipExclusive_def by blast
        qed
      qed
    qed
    with p show ?thesis by simp
  qed
qed

text \<open>
  C5. Starting from a store with exclusive ownership, after any sequence of install,
  update and remove operations, whatever the collaborators do in each of them, no base
  skill name is listed in the \<open>replacedSkills\<close> of two records of different extensions.
\<close>

theorem ownership_exclusivity:
  "ownershipExclusive c \<Longrightarrow> ownershipExclusive (foldl applyOperation c ops)"
proof (induction ops arbitrary: c)
  case Nil
  then show ?case by simp
next
  case (Cons op ops)
  have "ownershipExclusive (applyOperation c op)"
    using Cons.prems by (cases op) (simp_all add: add_exclusive update_exclusive remove_exclusive)
  then show ?case using Cons.IH by simp
qed


theorem ownership_exclusivity_witness:
  "ownershipExclusive
     (foldl applyOperation (configOf [agentOne, agentTwo] [recordA, recordHello])
        [Install (envOf manifestB None (\<lambda>a. [''shared''])) ''./b'',
         Remove (envOf manifestB None (\<lambda>a. [])) ''A'',
         Install (envOf manifestB None (\<lambda>a. [''shared''])) ''./b'',
         Update (envOf manifestB None (\<lambda>a. []))])"
proof -
  have "ownershipExclusive (configOf [agentOne, agentTwo] [recordA, recordHello])"
    by (simp add: ownershipExclusive_def configOf_def recordA_def recordHello_def orEmpty_def)
  then show ?thesis by (rule ownership_exclusivity)
qed

section \<open>Where the save stands among the effects\<close>

text \<open>
  C6, as stated, fails for install: the configuration is saved before the injections are
  applied to the agents. In the run below, with two agents and a manifest that declares
  an injection, effects on agents follow the save.
\<close>

theorem save_before_injections_counterexample:
  "\<not> savedAfterAgentEffects
       (fst (extensionAddCommand (envOf helloCommit None installsEverywhere)
               (Some (configOf [agentOne, agentTwo] [])) ''./hello''))"
  by (simp add: savedAfterAgentEffects_def extensionAddCommand_def envOf_def helloCommit_def
      configOf_def orEmpty_def addBeforeSave_def addAfterSave_def addSavedConfig_def
      installReplacements_def installCustomSkills_def applyInjectionsAll_def
      perAgentResults_def installsEverywhere_def bump_def successCount_def Let_def
      agentOne_def agentTwo_def)

lemma quiet_cleanup: "\<forall>e\<in>set (cleanupOldState env ags n r om). \<not> isSave e \<and> \<not> injectionOrMcp e"
  by (auto simp: cleanupOldState_def Let_def split: option.splits)

lemma quiet_reconcile:
  "\<forall>e\<in>set (fst (reconcileReplacements env ags m entries)). \<not> isSave e \<and> \<not> injectionOrMcp e"
  by (induction entries) (auto simp: Let_def case_prod_beta split: if_splits)

lemma quiet_installReplacements:
  "\<forall>e\<in>set (fst (installReplacements env ags manifest)). \<not> isSave e \<and> \<not> injectionOrMcp e"
  using quiet_reconcile by (auto simp: installReplacements_def Let_def case_prod_beta)

lemma quiet_custom: "\<forall>e\<in>set (installCustomSkills ags manifest). \<not> isSave e \<and> \<not> injectionOrMcp e"
  by (auto simp: installCustomSkills_def Let_def)

lemma quiet_addBeforeSave:
  "\<forall>e\<in>set (addBeforeSave env c manifest). \<not> isSave e \<and> \<not> injectionOrMcp e"
  using quiet_cleanup quiet_installReplacements quiet_custom
  by (auto simp: addBeforeSave_def Let_def split: option.splits)

lemma mcp_kinds:
  "\<forall>e\<in>set (applyExtensionMcp env ids manifest). \<exists>i k. e = ConfigureExtensionMcpServers i k"
  by (auto simp: applyExtensionMcp_def split: if_splits)

lemma addAfterSave_parts:
  "\<exists>mcp. addAfterSave env c manifest
       = (if orEmpty (injections manifest) = [] then []
          else map (\<lambda>a. ApplySingleExtensionInjections (agentId a) (manifestName manifest)) (agents c))
         @ mcp @ [Cleanup]
     \<and> (\<forall>e\<in>set mcp. \<exists>i k. e = ConfigureExtensionMcpServers i k)"
proof (cases "orEmpty (mcpServers manifest) = []")
  case True
  then show ?thesis
    by (intro exI[of _ "[]"]) (simp add: addAfterSave_def applyInjectionsAll_def)
next
  case False
  then show ?thesis
    using mcp_kinds[of env "map agentId (agents c)" manifest]
    by (intro exI[of _ "applyExtensionMcp env (map agentId (agents c)) manifest"])
       (simp add: addAfterSave_def applyInjectionsAll_def)
qed

lemma no_save_refresh: "\<forall>e\<in>set (fst (refreshReplacement env ags ext)). \<not> isSave e"
  by (auto simp: refreshReplacement_def Let_def split: option.splits)

lemma no_save_updateBeforeSave: "\<forall>e\<in>set (updateBeforeSave env c). \<not> isSave e"
  using no_save_refresh by (auto simp: updateBeforeSave_def refreshRounds_def)

lemma no_save_removeBeforeSave: "\<forall>e\<in>set (removeBeforeSave env c n i). \<not> isSave e"
  by (auto simp: removeBeforeSave_def Let_def split: option.splits)

lemma take_save:
  assumes pre: "\<forall>e\<in>set pre. \<not> isSave e" and rest: "\<forall>e\<in>set rest. \<not> isSave e"
    and mem: "SaveConfig x \<in> set (take j (pre @ SaveConfig c # rest))"
  shows "x = c \<and> prefix (pre @ [SaveConfig c]) (take j (pre @ SaveConfig c # rest))"
proof -
  have notin: "SaveConfig x \<notin> set (take j pre)"
    using pre by (metis in_set_takeD isSave.simps(1))
  from mem notin have in2: "SaveConfig x \<in> set (take (j - length pre) (SaveConfig c # rest))"
    by simp
  then have pos: "0 < j - length pre" by (cases "j - length pre") auto
  then obtain k where k: "j - length pre = Suc k" by (cases "j - length pre") auto
  from in2 k have "x = c \<or> SaveConfig x \<in> set (take k rest)" by auto
  moreover have "SaveConfig x \<notin> set (take k rest)"
    using rest by (metis in_set_takeD isSave.simps(1))
  ultimately have x: "x = c" by blast
  from pos have "take j pre = pre" by simp
  then have "take j (pre @ SaveConfig c # rest) = (pre @ [SaveConfig c]) @ take k rest"
    using k by simp
  then show ?thesis using x by simp
qed

lemma injection_no_save: "injectionOrMcp e \<Longrightarrow> \<not> isSave e"
  by (cases e) auto

lemma install_save_position:
  assumes res: "resolveExtension env src = Inr manifest"
    and noc: "findConflict (manifestName manifest) (orEmpty (replaces manifest))
                (orEmpty (extensions c)) = None"
  shows "\<exists>pre post mcp config' r.
       extensionAddCommand env (Some c) src = (pre @ SaveConfig config' # post, Inr config')
     \<and> (\<forall>e\<in>set pre. \<not> isSave e \<and> \<not> injectionOrMcp e)
     \<and> post = (if orEmpty (injections manifest) = [] then []
                else map (\<lambda>a. ApplySingleExtensionInjections (agentId a) (manifestName manifest))
                       (agents c))
              @ mcp @ [Cleanup]
     \<and> (\<forall>e\<in>set mcp. \<exists>i k. e = ConfigureExtensionMcpServers i k)
     \<and> extensions config'
          = Some (case findIndex (\<lambda>e. name e = manifestName manifest) (orEmpty (extensions c)) of
                    None \<Rightarrow> orEmpty (extensions c) @ [r]
                  | Some i \<Rightarrow> (orEmpty (extensions c))[i := r])
     \<and> name r = manifestName manifest \<and> source r = src \<and> version r = manifestVersion manifest
     \<and> replacedSkills r \<noteq> Some []
     \<and> ((\<forall>a\<in>set (agents c). distinct (installedFor env manifest a))
          \<longrightarrow> orEmpty (replacedSkills r)
               = filter (\<lambda>b. \<forall>a\<in>set (agents c). b \<in> set (installedFor env manifest a))
                   (map snd (orEmpty (replaces manifest))))
     \<and> (\<forall>thrown log out. extensionAddRun env (Some c) src thrown = (log, out)
          \<longrightarrow> (\<forall>x. SaveConfig x \<in> set log
                 \<longrightarrow> x = config' \<and> prefix (pre @ [SaveConfig config']) log))"
proof -
  let ?pre = "addBeforeSave env c manifest"
  let ?post = "addAfterSave env c manifest"
  let ?r = "newRecord manifest src (snd (installReplacements env (agents c) manifest))"
  let ?c = "addSavedConfig env c manifest src"
  have run: "extensionAddCommand env (Some c) src = (?pre @ SaveConfig ?c # ?post, Inr ?c)"
    by (simp add: extensionAddCommand_def res noc)
  note quiet = quiet_addBeforeSave[of env c manifest]
  from addAfterSave_parts[of env c manifest] obtain mcp where
    post: "?post = (if orEmpty (injections manifest) = [] then []
                else map (\<lambda>a. ApplySingleExtensionInjections (agentId a) (manifestName manifest))
                       (agents c))
              @ mcp @ [Cleanup]"
    and kinds: "\<forall>e\<in>set mcp. \<exists>i k. e = ConfigureExtensionMcpServers i k" by blast
  have store: "extensions ?c
          = Some (case findIndex (\<lambda>e. name e = manifestName manifest) (orEmpty (extensions c)) of
                    None \<Rightarrow> orEmpty (extensions c) @ [?r]
                  | Some i \<Rightarrow> (orEmpty (extensions c))[i := ?r])"
    by (rule addSavedConfig_store)
  have f: "name ?r = manifestName manifest" "source ?r = src" "version ?r = manifestVersion manifest"
    "replacedSkills ?r \<noteq> Some []"
    by (simp_all add: newRecord_def)
  have owned: "(\<forall>a\<in>set (agents c). distinct (installedFor env manifest a))
          \<longrightarrow> orEmpty (replacedSkills ?r)
               = filter (\<lambda>b. \<forall>a\<in>set (agents c). b \<in> set (installedFor env manifest a))
                   (map snd (orEmpty (replaces manifest)))"
  proof
    assume dist: "\<forall>a\<in>set (agents c). distinct (installedFor env manifest a)"
    show "orEmpty (replacedSkills ?r)
               = filter (\<lambda>b. \<forall>a\<in>set (agents c). b \<in> set (installedFor env manifest a))
                   (map snd (orEmpty (replaces manifest)))"
      unfolding installReplacements_names[OF dist] by (simp add: newRecord_def orEmpty_def)
  qed
  have inner: "\<forall>e\<in>set (butlast ?post). \<not> isSave e"
  proof
    fix e assume "e \<in> set (butlast ?post)"
    then have "e \<in> set ?post" by (rule in_set_butlastD)
    then have "injectionOrMcp e"
      by (auto simp: addAfterSave_def applyInjectionsAll_def applyExtensionMcp_def split: if_splits)
    then show "\<not> isSave e" by (rule injection_no_save)
  qed
  have ne: "?post \<noteq> []" by (simp add: addAfterSave_def)
  have bl: "butlast (?pre @ SaveConfig ?c # ?post) = ?pre @ SaveConfig ?c # butlast ?post"
    using ne by (simp add: butlast_append)
  have ps: "\<forall>e\<in>set ?pre. \<not> isSave e" using quiet by blast
  have runs: "\<forall>thrown log out. extensionAddRun env (Some c) src thrown = (log, out)
          \<longrightarrow> (\<forall>x. SaveConfig x \<in> set log
                 \<longrightarrow> x = ?c \<and> prefix (?pre @ [SaveConfig ?c]) log)"
  proof (intro allI impI)
    fix thrown log out x
    assume r: "extensionAddRun env (Some c) src thrown = (log, out)" and x: "SaveConfig x \<in> set log"
    show "x = ?c \<and> prefix (?pre @ [SaveConfig ?c]) log"
    proof (cases thrown)
      case None
      with r have log: "log = ?pre @ SaveConfig ?c # ?post" by (simp add: extensionAddRun_def run)
      have "\<forall>e\<in>set ?post. \<not> isSave e"
        by (auto simp: addAfterSave_def applyInjectionsAll_def applyExtensionMcp_def split: if_splits)
      with x ps have "x = ?c" unfolding log by auto
      then show ?thesis unfolding log by simp
    next
      case (Some j)
      with r have log: "log = take j (?pre @ SaveConfig ?c # butlast ?post) @ [Cleanup]"
        by (simp add: extensionAddRun_def run bl del: butlast.simps)
      from x have "SaveConfig x \<in> set (take j (?pre @ SaveConfig ?c # butlast ?post))"
        unfolding log by simp
      from take_save[OF ps inner this]
      have x': "x = ?c"
        and p: "prefix (?pre @ [SaveConfig ?c]) (take j (?pre @ SaveConfig ?c # butlast ?post))"
        by simp_all
      from prefix_prefix[OF p, of "[Cleanup]"] x' show ?thesis unfolding log by (rule conjI[rotated])
    qed
  qed
  show ?thesis
    by (rule exI[of _ ?pre], rule exI[of _ ?post], rule exI[of _ mcp], rule exI[of _ ?c],
        rule exI[of _ ?r])
       (rule conjI[OF run conjI[OF quiet conjI[OF post conjI[OF kinds conjI[OF store
          conjI[OF f(1) conjI[OF f(2) conjI[OF f(3) conjI[OF f(4) conjI[OF owned runs]]]]]]]]]])
qed

lemma update_save_position:
  "\<exists>pre config'.
       updateCommand env (Some c) = (pre @ [SaveConfig config'], Inr config')
     \<and> (\<forall>e\<in>set pre. \<not> isSave e)
     \<and> (\<forall>thrown log out. updateRun env (Some c) thrown = (log, out)
          \<longrightarrow> prefix log (pre @ [SaveConfig config']))"
proof -
  let ?pre = "updateBeforeSave env c" and ?c = "updateSavedConfig env c"
  have run: "updateCommand env (Some c) = (?pre @ [SaveConfig ?c], Inr ?c)"
    by (simp add: updateCommand_def)
  have runs: "\<forall>thrown log out. updateRun env (Some c) thrown = (log, out)
          \<longrightarrow> prefix log (?pre @ [SaveConfig ?c])"
  proof (intro allI impI)
    fix thrown log out
    assume r: "updateRun env (Some c) thrown = (log, out)"
    show "prefix log (?pre @ [SaveConfig ?c])"
    proof (cases thrown)
      case None
      with r show ?thesis by (simp add: updateRun_def run)
    next
      case (Some j)
      with r have "log = take j (?pre @ [SaveConfig ?c])"
        by (simp add: updateRun_def run del: take_append)
      then show ?thesis by (simp only: take_is_prefix)
    qed
  qed
  show ?thesis
    by (rule exI[of _ ?pre], rule exI[of _ ?c])
       (rule conjI[OF run conjI[OF no_save_updateBeforeSave runs]])
qed

lemma remove_save_position:
  assumes idx: "findIndex (\<lambda>e. name e = n) (orEmpty (extensions c)) = Some i"
  shows "\<exists>pre config'.
       extensionRemoveCommand env (Some c) n = (pre @ [SaveConfig config'], Inr config')
     \<and> (\<forall>e\<in>set pre. \<not> isSave e)
     \<and> (\<forall>thrown log out. extensionRemoveRun env (Some c) n thrown = (log, out)
          \<longrightarrow> prefix log (pre @ [SaveConfig config']))"
proof -
  let ?pre = "removeBeforeSave env c n i"
  let ?c = "c\<lparr>extensions := Some (removeAt i (orEmpty (extensions c)))\<rparr>"
  have run: "extensionRemoveCommand env (Some c) n = (?pre @ [SaveConfig ?c], Inr ?c)"
    by (simp add: extensionRemoveCommand_def idx Let_def)
  have runs: "\<forall>thrown log out. extensionRemoveRun env (Some c) n thrown = (log, out)
          \<longrightarrow> prefix log (?pre @ [SaveConfig ?c])"
  proof (intro allI impI)
    fix thrown log out
    assume r: "extensionRemoveRun env (Some c) n thrown = (log, out)"
    show "prefix log (?pre @ [SaveConfig ?c])"
    proof (cases thrown)
      case None
      with r show ?thesis by (simp add: extensionRemoveRun_def run)
    next
      case (Some j)
      with r have "log = take j (?pre @ [SaveConfig ?c])"
        by (simp add: extensionRemoveRun_def run del: take_append)
      then show ?thesis by (simp only: take_is_prefix)
    qed
  qed
  show ?thesis
    by (rule exI[of _ ?pre], rule exI[of _ ?c])
       (rule conjI[OF run conjI[OF no_save_removeBeforeSave runs]])
qed

text \<open>
  C6, amended. An install that passes resolution and the conflict check saves once. The
  copy into storage, the clean-up of a previous install, the replacement pass with its
  rollbacks and the custom skills come before the save; the injections, for every agent
  when the manifest declares any, the MCP configuration and the removal of the temporary
  copy come after it. The saved record stands in the place of the old record, or at the
  end of the store, with the name and version of the manifest and the given source; when
  the installer reports each name at most once for an agent, its \<open>replacedSkills\<close> are
  the declared base names reported for every agent. In every run of install, also one
  that a throwing collaborator interrupts, a save is preceded by all the effects that
  come before the save in the complete run. Update and remove save once, as the last
  effect of the complete run, and the log of an interrupted run of update or remove is a
  prefix of the log of the complete run.
\<close>

theorem save_position:
  "(\<forall>manifest. resolveExtension env src = Inr manifest
      \<and> findConflict (manifestName manifest) (orEmpty (replaces manifest)) (orEmpty (extensions c)) = None
      \<longrightarrow> (\<exists>pre post mcp config' r.
             extensionAddCommand env (Some c) src = (pre @ SaveConfig config' # post, Inr config')
           \<and> (\<forall>e\<in>set pre. \<not> isSave e \<and> \<not> injectionOrMcp e)
           \<and> post = (if orEmpty (injections manifest) = [] then []
                      else map (\<lambda>a. ApplySingleExtensionInjections (agentId a) (manifestName manifest))
                             (agents c))
                    @ mcp @ [Cleanup]
           \<and> (\<forall>e\<in>set mcp. \<exists>i k. e = ConfigureExtensionMcpServers i k)
           \<and> extensions config'
                = Some (case findIndex (\<lambda>e. name e = manifestName manifest) (orEmpty (extensions c)) of
                          None \<Rightarrow> orEmpty (extensions c) @ [r]
                        | Some i \<Rightarrow> (orEmpty (extensions c))[i := r])
           \<and> name r = manifestName manifest \<and> source r = src \<and> version r = manifestVersion manifest
           \<and> replacedSkills r \<noteq> Some []
           \<and> ((\<forall>a\<in>set (agents c). distinct (installedFor env manifest a))
                \<longrightarrow> orEmpty (replacedSkills r)
                     = filter (\<lambda>b. \<forall>a\<in>set (agents c). b \<in> set (installedFor env manifest a))
                         (map snd (orEmpty (replaces manifest))))
           \<and> (\<forall>thrown log out. extensionAddRun env (Some c) src thrown = (log, out)
                \<longrightarrow> (\<forall>x. SaveConfig x \<in> set log
                       \<longrightarrow> x = config' \<and> prefix (pre @ [SaveConfig config']) log))))
   \<and> (\<exists>pre config'.
          updateCommand env (Some c) = (pre @ [SaveConfig config'], Inr config')
        \<and> (\<forall>e\<in>set pre. \<not> isSave e)
        \<and> (\<forall>thrown log out. updateRun env (Some c) thrown = (log, out)
             \<longrightarrow> prefix log (pre @ [SaveConfig config'])))
   \<and> (\<forall>i. findIndex (\<lambda>e. name e = n) (orEmpty (extensions c)) = Some i
        \<longrightarrow> (\<exists>pre config'.
               extensionRemoveCommand env (Some c) n = (pre @ [SaveConfig config'], Inr config')
             \<and> (\<forall>e\<in>set pre. \<not> isSave e)
             \<and> (\<forall>thrown log out. extensionRemoveRun env (Some c) n thrown = (log, out)
                  \<longrightarrow> prefix log (pre @ [SaveConfig config']))))"
proof (intro conjI allI impI)
  fix manifest
  assume "resolveExtension env src = Inr manifest
      \<and> findConflict (manifestName manifest) (orEmpty (replaces manifest)) (orEmpty (extensions c)) = None"
  then have res: "resolveExtension env src = Inr manifest"
    and noc: "findConflict (manifestName manifest) (orEmpty (replaces manifest)) (orEmpty (extensions c)) = None"
    by simp_all
  show "\<exists>pre post mcp config' r.
             extensionAddCommand env (Some c) src = (pre @ SaveConfig config' # post, Inr config')
           \<and> (\<forall>e\<in>set pre. \<not> isSave e \<and> \<not> injectionOrMcp e)
           \<and> post = (if orEmpty (injections manifest) = [] then []
                      else map (\<lambda>a. ApplySingleExtensionInjections (agentId a) (manifestName manifest))
                             (agents c))
                    @ mcp @ [Cleanup]
           \<and> (\<forall>e\<in>set mcp. \<exists>i k. e = ConfigureExtensionMcpServers i k)
           \<and> extensions config'
                = Some (case findIndex (\<lambda>e. name e = manifestName manifest) (orEmpty (extensions c)) of
                          None \<Rightarrow> orEmpty (extensions c) @ [r]
                        | Some i \<Rightarrow> (orEmpty (extensions c))[i := r])
           \<and> name r = manifestName manifest \<and> source r = src \<and> version r = manifestVersion manifest
           \<and> replacedSkills r \<noteq> Some []
           \<and> ((\<forall>a\<in>set (agents c). distinct (installedFor env manifest a))
                \<longrightarrow> orEmpty (replacedSkills r)
                     = filter (\<lambda>b. \<forall>a\<in>set (agents c). b \<in> set (installedFor env manifest a))
                         (map snd (orEmpty (replaces manifest))))
           \<and> (\<forall>thrown log out. extensionAddRun env (Some c) src thrown = (log, out)
                \<longrightarrow> (\<forall>x. SaveConfig x \<in> set log
                       \<longrightarrow> x = config' \<and> prefix (pre @ [SaveConfig config']) log))"
    by (rule install_save_position[OF res noc])
next
  show "\<exists>pre config'.
          updateCommand env (Some c) = (pre @ [SaveConfig config'], Inr config')
        \<and> (\<forall>e\<in>set pre. \<not> isSave e)
        \<and> (\<forall>thrown log out. updateRun env (Some c) thrown = (log, out)
             \<longrightarrow> prefix log (pre @ [SaveConfig config']))"
    by (rule update_save_position)
next
  fix i assume "findIndex (\<lambda>e. name e = n) (orEmpty (extensions c)) = Some i"
  then show "\<exists>pre config'.
               extensionRemoveCommand env (Some c) n = (pre @ [SaveConfig config'], Inr config')
             \<and> (\<forall>e\<in>set pre. \<not> isSave e)
             \<and> (\<forall>thrown log out. extensionRemoveRun env (Some c) n thrown = (log, out)
                  \<longrightarrow> prefix log (pre @ [SaveConfig config']))"
    by (rule remove_save_position)
qed

theorem save_position_witness:
  "\<exists>pre post config'.
      extensionAddCommand (envOf helloCommit None installsEverywhere)
        (Some (configOf [agentOne, agentTwo] [recordA])) ''./hello'' = (pre @ SaveConfig config' # post, Inr config')
    \<and> (\<forall>e\<in>set pre. \<not> isSave e \<and> \<not> injectionOrMcp e)
    \<and> take 2 post = [ApplySingleExtensionInjections ''claude'' ''hello-commit'',
                      ApplySingleExtensionInjections ''codex'' ''hello-commit'']
    \<and> extensions config' = Some [recordA, recordHello]
    \<and> prefix (pre @ [SaveConfig config'])
         (fst (extensionAddRun (envOf helloCommit None installsEverywhere)
                 (Some (configOf [agentOne, agentTwo] [recordA])) ''./hello'' (Some 4)))"
proof -
  let ?env = "envOf helloCommit None installsEverywhere"
  let ?c = "configOf [agentOne, agentTwo] [recordA]"
  have h: "resolveExtension ?env ''./hello'' = Inr helloCommit
      \<and> findConflict (manifestName helloCommit) (orEmpty (replaces helloCommit)) (orEmpty (extensions ?c)) = None"
    by (simp add: envOf_def helloCommit_def configOf_def recordA_def orEmpty_def)
  have "\<forall>manifest. resolveExtension ?env ''./hello'' = Inr manifest
      \<and> findConflict (manifestName manifest) (orEmpty (replaces manifest)) (orEmpty (extensions ?c)) = None
      \<longrightarrow> (\<exists>pre post mcp config' r.
             extensionAddCommand ?env (Some ?c) ''./hello'' = (pre @ SaveConfig config' # post, Inr config')
           \<and> (\<forall>e\<in>set pre. \<not> isSave e \<and> \<not> injectionOrMcp e)
           \<and> post = (if orEmpty (injections manifest) = [] then []
                      else map (\<lambda>a. ApplySingleExtensionInjections (agentId a) (manifestName manifest))
                             (agents ?c))
                    @ mcp @ [Cleanup]
           \<and> (\<forall>e\<in>set mcp. \<exists>i k. e = ConfigureExtensionMcpServers i k)
           \<and> extensions config'
                = Some (case findIndex (\<lambda>e. name e = manifestName manifest) (orEmpty (extensions ?c)) of
                          None \<Rightarrow> orEmpty (extensions ?c) @ [r]
                        | Some i \<Rightarrow> (orEmpty (extensions ?c))[i := r])
           \<and> name r = manifestName manifest \<and> source r = ''./hello'' \<and> version r = manifestVersion manifest
           \<and> replacedSkills r \<noteq> Some []
           \<and> ((\<forall>a\<in>set (agents ?c). distinct (installedFor ?env manifest a))
                \<longrightarrow> orEmpty (replacedSkills r)
                     = filter (\<lambda>b. \<forall>a\<in>set (agents ?c). b \<in> set (installedFor ?env manifest a))
                         (map snd (orEmpty (replaces manifest))))
           \<and> (\<forall>thrown log out. extensionAddRun ?env (Some ?c) ''./hello'' thrown = (log, out)
                \<longrightarrow> (\<forall>x. SaveConfig x \<in> set log
                       \<longrightarrow> x = config' \<and> prefix (pre @ [SaveConfig config']) log)))"
    using save_position[of ?env "''./hello''" ?c "''A''"] by (rule conjunct1)
  from this[THEN spec, of helloCommit, THEN mp, OF h] obtain pre post mcp config' r where
    run: "extensionAddCommand ?env (Some ?c) ''./hello'' = (pre @ SaveConfig config' # post, Inr config')"
    and quiet: "\<forall>e\<in>set pre. \<not> isSave e \<and> \<not> injectionOrMcp e"
    and post: "post = (if orEmpty (injections helloCommit) = [] then []
                      else map (\<lambda>a. ApplySingleExtensionInjections (agentId a) (manifestName helloCommit))
                             (agents ?c))
                    @ mcp @ [Cleanup]"
    and store: "extensions config'
                = Some (case findIndex (\<lambda>e. name e = manifestName helloCommit) (orEmpty (extensions ?c)) of
                          None \<Rightarrow> orEmpty (extensions ?c) @ [r]
                        | Some i \<Rightarrow> (orEmpty (extensions ?c))[i := r])"
    and f: "name r = manifestName helloCommit" "source r = ''./hello''"
       "version r = manifestVersion helloCommit" "replacedSkills r \<noteq> Some []"
    and owned: "(\<forall>a\<in>set (agents ?c). distinct (installedFor ?env helloCommit a))
                \<longrightarrow> orEmpty (replacedSkills r)
                     = filter (\<lambda>b. \<forall>a\<in>set (agents ?c). b \<in> set (installedFor ?env helloCommit a))
                         (map snd (orEmpty (replaces helloCommit)))"
    and runs: "\<forall>thrown log out. extensionAddRun ?env (Some ?c) ''./hello'' thrown = (log, out)
                \<longrightarrow> (\<forall>x. SaveConfig x \<in> set log
                       \<longrightarrow> x = config' \<and> prefix (pre @ [SaveConfig config']) log)"
    by blast
  have dist: "\<forall>a\<in>set (agents ?c). distinct (installedFor ?env helloCommit a)"
    by (simp add: installedFor_def envOf_def installsEverywhere_def)
  have "orEmpty (replacedSkills r) = [''aif-commit'']"
    unfolding owned[THEN mp, OF dist]
    by (simp add: helloCommit_def configOf_def orEmpty_def envOf_def installedFor_def
        installsEverywhere_def)
  then have rs: "replacedSkills r = Some [''aif-commit'']"
    by (cases "replacedSkills r") (simp_all add: orEmpty_def)
  have r: "r = recordHello"
    using f(1-3) rs by (cases r) (simp add: helloCommit_def recordHello_def)
  have st: "extensions config' = Some [recordA, recordHello]"
    unfolding store r by (simp add: configOf_def orEmpty_def helloCommit_def recordA_def)
  have tk: "take 2 post = [ApplySingleExtensionInjections ''claude'' ''hello-commit'',
                      ApplySingleExtensionInjections ''codex'' ''hello-commit'']"
    unfolding post by (simp add: helloCommit_def orEmpty_def configOf_def agentOne_def agentTwo_def)
  have log: "fst (extensionAddRun ?env (Some ?c) ''./hello'' (Some 4))
      = [CommitExtensionInstall ''hello-commit'',
          InstallExtensionSkills ''claude'' ''hello-commit'' [''skills/my-commit'']
            [(''skills/my-commit'', ''aif-commit'')],
          InstallExtensionSkills ''codex'' ''hello-commit'' [''skills/my-commit'']
            [(''skills/my-commit'', ''aif-commit'')],
          SaveConfig (configOf [agentOne, agentTwo] [recordA, recordHello]),
          Cleanup]"
    by (simp add: extensionAddRun_def extensionAddCommand_def envOf_def helloCommit_def configOf_def
      orEmpty_def addBeforeSave_def addAfterSave_def addSavedConfig_def newRecord_def
      installReplacements_def installCustomSkills_def applyInjectionsAll_def
      perAgentResults_def installsEverywhere_def bump_def successCount_def Let_def
      agentOne_def agentTwo_def recordHello_def recordA_def)
  obtain out where out: "extensionAddRun ?env (Some ?c) ''./hello'' (Some 4)
      = (fst (extensionAddRun ?env (Some ?c) ''./hello'' (Some 4)), out)"
    by (cases "extensionAddRun ?env (Some ?c) ''./hello'' (Some 4)") simp
  have "SaveConfig (configOf [agentOne, agentTwo] [recordA, recordHello])
          \<in> set (fst (extensionAddRun ?env (Some ?c) ''./hello'' (Some 4)))"
    unfolding log by simp
  from runs[THEN spec, THEN spec, THEN spec, THEN mp, OF out, THEN spec, THEN mp, OF this]
  have pf: "prefix (pre @ [SaveConfig config'])
         (fst (extensionAddRun ?env (Some ?c) ''./hello'' (Some 4)))" by (rule conjunct2)
  show ?thesis
    by (rule exI[of _ pre], rule exI[of _ post], rule exI[of _ config'])
       (rule conjI[OF run conjI[OF quiet conjI[OF tk conjI[OF st pf]]]])
qed

section \<open>Restoration on update\<close>

text \<open>
  C7. The claim does not hold of \<^verbatim>\<open>updateCommand\<close>: its restoration filter keeps the
  released names that no record lists any more and does not ask whether they are in the
  catalog of available skills, which the command has read at its start. Remove and
  re-install over an existing record do ask. Below, the store records extension
  \<^verbatim>\<open>X\<close> as owner of \<^verbatim>\<open>legacy\<close>, which is not in the catalog, and the manifest of
  \<^verbatim>\<open>X\<close> does not load: update passes \<^verbatim>\<open>legacy\<close> to \<^verbatim>\<open>installSkills\<close> for both
  agents, while remove and re-install, on the same store, call \<^verbatim>\<open>installSkills\<close> for
  no agent.
\<close>

theorem update_restores_outside_catalog:
  "''legacy'' \<notin> set (getAvailableSkills (envOf helloCommit None installsEverywhere))
   \<and> filter isInstallSkills
        (fst (updateCommand (envOf helloCommit None installsEverywhere)
                (Some (configOf [agentOne, agentTwo] [recordLegacy]))))
       = [InstallSkills ''claude'' [''legacy''], InstallSkills ''codex'' [''legacy'']]
   \<and> filter isInstallSkills
        (fst (extensionRemoveCommand (envOf helloCommit None installsEverywhere)
                (Some (configOf [agentOne, agentTwo] [recordLegacy])) ''X''))
       = []
   \<and> filter isInstallSkills
        (fst (extensionAddCommand (envOf manifestX None installsEverywhere)
                (Some (configOf [agentOne, agentTwo] [recordLegacy])) ''./x''))
       = []"
  by (simp add: updateCommand_def updateBeforeSave_def updateToRestore_def failedReplacements_def
      refreshedExtensions_def refreshRounds_def refreshReplacement_def manifestReplaces_def
      updatedAgents_def collectReplaced_def setAdd_def
      extensionRemoveCommand_def removeBeforeSave_def removeToRestore_def removeAt_def
      extensionAddCommand_def addBeforeSave_def addAfterSave_def cleanupOldState_def
      installReplacements_def installCustomSkills_def applyInjectionsAll_def
      envOf_def configOf_def recordLegacy_def manifestX_def agentOne_def agentTwo_def
      orEmpty_def Let_def)

section \<open>Stripping a marker block\<close>

lemma no_straddle:
  assumes "NL \<notin> set X" "prefix X (Q @ NL # W)"
  shows "prefix X Q"
proof -
  from assms(2) consider "prefix X Q" | us where "X = Q @ us" "prefix us (NL # W)"
    by (auto simp: prefix_append)
  then show ?thesis
  proof cases
    case 1
    then show ?thesis .
  next
    case 2
    show ?thesis
    proof (cases us)
      case Nil
      with 2 show ?thesis by simp
    next
      case (Cons u us')
      with 2 have "u = NL" by simp
      with 2 Cons assms(1) show ?thesis by simp
    qed
  qed
qed

lemma drop_exact: "n = length A \<Longrightarrow> drop n (A @ R) = R"
  by simp

lemma prefix_drop_sublist: "prefix X (drop j B) \<Longrightarrow> sublist X B"
  by (metis append_take_drop_id prefix_def sublist_def)

lemma indexOf_first:
  assumes "\<forall>j<length B. \<not> prefix pat (drop j (B @ pat @ R))"
  shows "indexOf pat (B @ pat @ R) = Some (length B)"
  using assms
proof (induction B)
  case Nil
  show ?case
  proof (cases "pat @ R")
    case Nil
    then show ?thesis by simp
  next
    case (Cons a l)
    have "prefix pat (pat @ R)" by simp
    then have "prefix pat (a # l)" by (simp only: Cons)
    then show ?thesis using Cons by simp
  qed
next
  case (Cons b B)
  from Cons.prems have "\<not> prefix pat (b # B @ pat @ R)" by force
  moreover have "\<forall>j<length B. \<not> prefix pat (drop j (B @ pat @ R))"
    using Cons.prems by force
  ultimately show ?case using Cons.IH by simp
qed

lemma no_early_end:
  assumes "NL \<notin> set E" "\<not> sublist E B" "j < length B"
  shows "\<not> prefix (NL # E) (drop j (B @ (NL # E) @ R))"
proof
  assume p: "prefix (NL # E) (drop j (B @ (NL # E) @ R))"
  from assms(3) obtain b B3 where d: "drop j B = b # B3"
    by (cases "drop j B") auto
  with p assms(3) have "prefix E (B3 @ NL # E @ R)" by simp
  with assms(1) have "prefix E B3" by (rule no_straddle)
  then have "prefix E (drop (Suc j) B)"
    using d by (metis drop_Suc tl_drop list.sel(3))
  then have "sublist E B" by (rule prefix_drop_sublist)
  with assms(2) show False by simp
qed

lemma matchMarked_block:
  assumes "NL \<notin> set E" "\<not> sublist E B"
  shows "matchMarked S E (S @ NL # B @ NL # E @ T)
         = Some (length S + length B + length E + 2 + (if take 1 T = [NL] then 1 else 0))"
proof -
  have idx: "indexOf (NL # E) (B @ (NL # E) @ T) = Some (length B)"
    using no_early_end[OF assms] by (intro indexOf_first) blast
  have d: "drop (length S + 1) (S @ NL # B @ NL # E @ T) = B @ (NL # E) @ T"
    using drop_exact[of "length S + 1" "S @ [NL]" "B @ (NL # E) @ T"] by simp
  have d2: "drop (length S + 1 + length B + 1 + length E) (S @ NL # B @ NL # E @ T) = T"
    using drop_exact[of "length S + 1 + length B + 1 + length E" "S @ NL # B @ NL # E" T] by simp
  have p: "prefix (S @ [NL]) (S @ NL # B @ NL # E @ T)" by simp
  show ?thesis
    unfolding matchMarked_def d idx d2 Let_def if_P[OF p] by simp
qed

lemma matchMarked_None: "\<not> prefix S xs \<Longrightarrow> matchMarked S E xs = None"
  by (auto simp: matchMarked_def dest: append_prefixD)

lemma matchAt_None:
  assumes "\<not> prefix S xs" "\<And>ys. xs = NL # ys \<Longrightarrow> \<not> prefix S ys"
  shows "matchAt S E xs = None"
  using assms by (cases xs) (auto simp: matchAt_def matchMarked_None)

lemma replace_clean:
  "\<not> sublist S Q \<Longrightarrow> replaceMatches (matchAt S E) Q = Q"
proof (induction Q)
  case Nil
  then show ?case by simp
next
  case (Cons x Q)
  from Cons.prems have ns: "\<not> prefix S (x # Q)" "\<not> sublist S Q"
    by (auto simp: sublist_Cons_right)
  then have "\<not> prefix S Q" by auto
  with ns have "matchAt S E (x # Q) = None" by (intro matchAt_None) auto
  with Cons.IH ns show ?case by simp
qed

lemma replace_skip:
  assumes "NL \<notin> set S"
  shows "\<not> sublist S P \<Longrightarrow>
         replaceMatches (matchAt S E) (P @ NL # W) = P @ replaceMatches (matchAt S E) (NL # W)"
proof (induction P)
  case Nil
  then show ?case by simp
next
  case (Cons x P)
  from Cons.prems have ns: "\<not> prefix S (x # P)" "\<not> sublist S P"
    by (auto simp: sublist_Cons_right)
  have a: "\<not> prefix S ((x # P) @ NL # W)"
    using no_straddle[OF assms] ns(1) by blast
  have b: "\<not> prefix S (P @ NL # W)"
    using no_straddle[OF assms] ns(2) by blast
  have "matchAt S E (x # P @ NL # W) = None"
    using a b by (intro matchAt_None) auto
  with Cons.IH ns show ?case by simp
qed

lemma matchAt_block_after_newline:
  assumes "NL \<notin> set E" "\<not> sublist E B"
  shows "matchAt S E (NL # S @ NL # B @ NL # E @ T)
         = Some (length S + length B + length E + 3 + (if take 1 T = [NL] then 1 else 0))"
  by (simp add: matchAt_def matchMarked_block[OF assms])

lemma matchAt_block_at_start:
  assumes "NL \<notin> set E" "\<not> sublist E B" "NL \<notin> set S" "S \<noteq> []"
  shows "matchAt S E (S @ NL # B @ NL # E @ T)
         = Some (length S + length B + length E + 2 + (if take 1 T = [NL] then 1 else 0))"
proof -
  from assms(3,4) obtain c S' where S: "S = c # S'" "c \<noteq> NL" by (cases S) auto
  show ?thesis
    using matchMarked_block[OF assms(1,2), of S T]
    by (simp add: matchAt_def S)
qed

lemma strip_block:
  assumes "NL \<notin> set S" "NL \<notin> set E" "\<not> sublist E B" "\<not> sublist S P" "\<not> sublist S Q"
  shows "replaceMatches (matchAt S E) (P @ NL # S @ NL # B @ NL # E @ NL # Q) = P @ Q"
proof -
  have d: "drop (length S + length B + length E + 3) (S @ NL # B @ NL # E @ NL # Q) = Q"
    using drop_exact[of "length S + length B + length E + 3" "S @ NL # B @ NL # E @ [NL]" Q] by simp
  have m: "matchAt S E (NL # S @ NL # B @ NL # E @ NL # Q)
      = Some (Suc (length S + length B + length E + 3))"
    using matchAt_block_after_newline[OF assms(2,3), of S "NL # Q"] by simp
  have "replaceMatches (matchAt S E) (NL # S @ NL # B @ NL # E @ NL # Q)
        = replaceMatches (matchAt S E) Q"
    unfolding replaceMatches.simps m by (simp only: option.case diff_Suc_1 d)
  then show ?thesis
    using replace_skip[OF assms(1,4)] replace_clean[OF assms(5)] by simp
qed

lemma strip_block_at_start:
  assumes "NL \<notin> set S" "NL \<notin> set E" "\<not> sublist E B" "\<not> sublist S Q"
  shows "replaceMatches (matchAt S E) (S @ NL # B @ NL # E @ NL # Q) = Q"
proof -
  from assms(4) have ne: "S \<noteq> []" by auto
  then obtain c S' where S: "S = c # S'" by (cases S) auto
  have d: "drop (length S' + length B + length E + 3) (S' @ NL # B @ NL # E @ NL # Q) = Q"
    using drop_exact[of "length S' + length B + length E + 3" "S' @ NL # B @ NL # E @ [NL]" Q] by simp
  have m: "matchAt S E (c # S' @ NL # B @ NL # E @ NL # Q)
      = Some (Suc (length S' + length B + length E + 3))"
    using matchAt_block_at_start[OF assms(2,3,1) ne, of "NL # Q"] by (simp add: S)
  have "replaceMatches (matchAt S E) (c # S' @ NL # B @ NL # E @ NL # Q)
        = replaceMatches (matchAt S E) Q"
    unfolding replaceMatches.simps m by (simp only: option.case diff_Suc_1 d)
  then show ?thesis
    using replace_clean[OF assms(4)] by (simp add: S)
qed

lemma js_literals_no_newline:
  "NL \<notin> set (js ''<!-- aif-ext:'')" "NL \<notin> set (js '':'')" "NL \<notin> set (js '':start -->'')"
  "NL \<notin> set (js '':end -->'')"
  by (simp_all add: js_def)

lemma positionName_no_newline: "NL \<notin> set (positionName p)"
  by (simp add: js_def positionName_def split: position.splits)

lemma startMarker_no_newline:
  "NL \<notin> set ext \<Longrightarrow> NL \<notin> set skill \<Longrightarrow> NL \<notin> set (startMarker ext skill (positionName p))"
  using js_literals_no_newline positionName_no_newline[of p] by (simp add: startMarker_def)

lemma endMarker_no_newline:
  "NL \<notin> set ext \<Longrightarrow> NL \<notin> set skill \<Longrightarrow> NL \<notin> set (endMarker ext skill (positionName p))"
  using js_literals_no_newline positionName_no_newline[of p] by (simp add: endMarker_def)

lemma trimEnd_prefix: "prefix (trimEnd xs) xs"
proof -
  have "rev xs = takeWhile isWhiteSpace (rev xs) @ dropWhile isWhiteSpace (rev xs)" by simp
  then have "xs = rev (dropWhile isWhiteSpace (rev xs)) @ rev (takeWhile isWhiteSpace (rev xs))"
    by (metis rev_append rev_rev_ident)
  then show ?thesis unfolding trimEnd_def by (metis prefixI)
qed

lemma trimEnd_idem: "trimEnd (trimEnd xs) = trimEnd xs"
  by (simp add: trimEnd_def dropWhile_idem)

lemma trimEnd_snoc_newline: "trimEnd (xs @ [NL]) = trimEnd xs"
  by (simp add: trimEnd_def isWhiteSpace_def)

lemma not_sublist_prefix: "\<not> sublist S F \<Longrightarrow> prefix P F \<Longrightarrow> \<not> sublist S P"
  by (meson prefix_imp_sublist sublist_order.order_trans)

lemma not_sublist_snoc_newline:
  assumes "NL \<notin> set S" "\<not> sublist S X"
  shows "\<not> sublist S (X @ [NL])"
proof
  assume "sublist S (X @ [NL])"
  then consider "sublist S X" | "sublist S [NL]" | xs1 xs2 where "S = xs1 @ xs2" "suffix xs1 X" "prefix xs2 [NL]"
    by (auto simp: sublist_append)
  then show False
  proof cases
    case 1
    with assms(2) show False by simp
  next
    case 2
    then have "S = [] \<or> S = [NL]" by (auto simp: sublist_Cons_right prefix_Cons)
    with assms show False by auto
  next
    case 3
    then have "xs2 = [] \<or> xs2 = [NL]" by (auto simp: prefix_Cons)
    with 3 assms show False by (auto dest: suffix_imp_sublist)
  qed
qed

lemma strip_clean:
  "\<not> sublist (startMarker ext skill p) F \<Longrightarrow> stripInjection F ext skill p = F"
  by (simp add: stripInjection_def replace_clean)

lemma strip_appended:
  assumes nl: "NL \<notin> set ext" "NL \<notin> set skill"
    and F: "\<not> sublist (startMarker ext skill (positionName Append)) F"
    and B: "\<not> sublist (endMarker ext skill (positionName Append)) B"
  shows "stripInjection (applyInjection F B Append ext skill) ext skill (positionName Append)
         = trimEnd F @ [NL]"
proof -
  let ?S = "startMarker ext skill (positionName Append)"
  let ?E = "endMarker ext skill (positionName Append)"
  have S: "NL \<notin> set ?S" and E: "NL \<notin> set ?E"
    using nl by (rule startMarker_no_newline, rule endMarker_no_newline)
  have B': "\<not> sublist ?E (trimEnd B)"
    using B trimEnd_prefix by (rule not_sublist_prefix)
  have P: "\<not> sublist ?S (trimEnd F @ [NL])"
    using S not_sublist_prefix[OF F trimEnd_prefix] by (rule not_sublist_snoc_newline)
  have Q: "\<not> sublist ?S []" using F by auto
  have shape: "applyInjection F B Append ext skill
      = (trimEnd F @ [NL]) @ NL # ?S @ NL # trimEnd B @ NL # ?E @ NL # []"
    by (simp add: applyInjection_def Let_def strip_clean[OF F])
  show ?thesis
    unfolding shape stripInjection_def using strip_block[OF S E B' P Q] by simp
qed

lemma strip_prepended:
  assumes nl: "NL \<notin> set ext" "NL \<notin> set skill"
    and F: "\<not> sublist (startMarker ext skill (positionName Prepend)) F"
    and B: "\<not> sublist (endMarker ext skill (positionName Prepend)) B"
    and fm: "frontMatter F = Some n"
  shows "stripInjection (applyInjection F B Prepend ext skill) ext skill (positionName Prepend) = F"
proof -
  let ?S = "startMarker ext skill (positionName Prepend)"
  let ?E = "endMarker ext skill (positionName Prepend)"
  have S: "NL \<notin> set ?S" and E: "NL \<notin> set ?E"
    using nl by (rule startMarker_no_newline, rule endMarker_no_newline)
  have B': "\<not> sublist ?E (trimEnd B)"
    using B trimEnd_prefix by (rule not_sublist_prefix)
  have P: "\<not> sublist ?S (take n F)"
    using F by (meson sublist_take sublist_order.order_trans)
  have Q: "\<not> sublist ?S (drop n F)"
    using F by (meson sublist_drop sublist_order.order_trans)
  have shape: "applyInjection F B Prepend ext skill
      = take n F @ NL # ?S @ NL # trimEnd B @ NL # ?E @ NL # drop n F"
    by (simp add: applyInjection_def Let_def strip_clean[OF F] fm)
  show ?thesis
    unfolding shape stripInjection_def using strip_block[OF S E B' P Q] by simp
qed

lemmas codec_defs = applyInjection_def stripInjection_def startMarker_def endMarker_def js_def
      positionName_def matchAt_def matchMarked_def frontMatter_def trimEnd_def isWhiteSpace_def Let_def



lemma sublist_eval:
  "sublist (x # xs) (y # ys) \<longleftrightarrow> prefix (x # xs) (y # ys) \<or> sublist (x # xs) ys"
  by (rule sublist_Cons_right)



lemma frontMatter_after_newline: "frontMatter (NL # F) = None"
  by (simp add: frontMatter_def js_def)

lemma prepend_without_front_matter:
  assumes nl: "NL \<notin> set ext" "NL \<notin> set skill"
    and F: "\<not> sublist (startMarker ext skill (positionName Prepend)) F"
    and B: "\<not> sublist (endMarker ext skill (positionName Prepend)) B"
    and fm: "frontMatter F = None"
  shows "stripInjection (applyInjection F B Prepend ext skill) ext skill (positionName Prepend) = NL # F"
    and "applyInjection (applyInjection F B Prepend ext skill) B Prepend ext skill
         = startMarker ext skill (positionName Prepend) @ [NL] @ trimEnd B @ [NL]
           @ endMarker ext skill (positionName Prepend) @ [NL, NL, NL] @ F"
proof -
  let ?S = "startMarker ext skill (positionName Prepend)"
  let ?E = "endMarker ext skill (positionName Prepend)"
  have S: "NL \<notin> set ?S" and E: "NL \<notin> set ?E"
    using nl by (rule startMarker_no_newline, rule endMarker_no_newline)
  have B': "\<not> sublist ?E (trimEnd B)"
    using B trimEnd_prefix by (rule not_sublist_prefix)
  have Q: "\<not> sublist ?S (NL # F)"
  proof
    assume "sublist ?S (NL # F)"
    then have "prefix ?S (NL # F)" using F by (simp add: sublist_Cons_right)
    moreover from F have "?S \<noteq> []" by auto
    ultimately show False using S by (cases ?S) auto
  qed
  have shape: "applyInjection F B Prepend ext skill
      = ?S @ NL # trimEnd B @ NL # ?E @ NL # NL # F"
    by (simp add: applyInjection_def Let_def strip_clean[OF F] fm)
  show s: "stripInjection (applyInjection F B Prepend ext skill) ext skill (positionName Prepend) = NL # F"
    unfolding shape stripInjection_def using strip_block_at_start[OF S E B' Q] by simp
  show "applyInjection (applyInjection F B Prepend ext skill) B Prepend ext skill
         = ?S @ [NL] @ trimEnd B @ [NL] @ ?E @ [NL, NL, NL] @ F"
    using s by (simp add: applyInjection_def[of "applyInjection F B Prepend ext skill"] Let_def
        frontMatter_after_newline)
qed

section \<open>Idempotent apply\<close>

text \<open>
  C1, as stated, fails: the markers are matched as plain text and nothing is escaped, so
  an injection that holds the end marker of its own triple ends the block early when the
  second apply strips the first. Below, the injection is three lines, the second being
  the end marker.
\<close>

theorem apply_twice_counterexample:
  "applyInjection (applyInjection (js ''doc'') contentWithEndMarker Append (js ''e'') (js ''s''))
       contentWithEndMarker Append (js ''e'') (js ''s'')
   \<noteq> applyInjection (js ''doc'') contentWithEndMarker Append (js ''e'') (js ''s'')"
  by (simp add: codec_defs contentWithEndMarker_def)

text \<open>
  C1, amended. When the extension and skill names hold no line feed, the file does not
  hold the start marker of the triple and the injection does not hold its end marker,
  applying twice yields the same text as applying once, for the append position and for
  the prepend position on a file with front matter. (For prepend on a file without front
  matter see \<open>prepend_without_front_matter\<close>.)
\<close>

theorem apply_idempotent:
  assumes nl: "NL \<notin> set ext" "NL \<notin> set skill"
    and F: "\<not> sublist (startMarker ext skill (positionName p)) F"
    and B: "\<not> sublist (endMarker ext skill (positionName p)) B"
    and site: "p = Append \<or> frontMatter F \<noteq> None"
  shows "applyInjection (applyInjection F B p ext skill) B p ext skill
         = applyInjection F B p ext skill"
proof -
  define place where "place = (\<lambda>content.
      case p of
        Append \<Rightarrow> trimEnd content @ [NL, NL]
          @ (startMarker ext skill (positionName p) @ [NL] @ trimEnd B @ [NL]
             @ endMarker ext skill (positionName p)) @ [NL]
      | Prepend \<Rightarrow>
         (case frontMatter content of
            Some afterFm \<Rightarrow> take afterFm content @ [NL]
              @ (startMarker ext skill (positionName p) @ [NL] @ trimEnd B @ [NL]
                 @ endMarker ext skill (positionName p)) @ [NL] @ drop afterFm content
          | None \<Rightarrow> (startMarker ext skill (positionName p) @ [NL] @ trimEnd B @ [NL]
                 @ endMarker ext skill (positionName p)) @ [NL, NL] @ content))"
  have unfold: "applyInjection X B p ext skill = place (stripInjection X ext skill (positionName p))"
    for X
    by (simp add: applyInjection_def Let_def place_def split: position.splits option.splits)
  have s0: "stripInjection F ext skill (positionName p) = F"
    using strip_clean F by simp
  let ?A = "applyInjection F B p ext skill"
  have same: "place (stripInjection ?A ext skill (positionName p)) = place F"
  proof (cases p)
    case Append
    have "stripInjection ?A ext skill (positionName p) = trimEnd F @ [NL]"
      using strip_appended[OF nl] F B Append by simp
    then show ?thesis
      by (simp add: place_def Append trimEnd_snoc_newline trimEnd_idem)
  next
    case Prepend
    with site obtain n where fm: "frontMatter F = Some n" by auto
    have "stripInjection ?A ext skill (positionName p) = F"
      using strip_prepended[OF nl _ _ fm] F B Prepend by simp
    then show ?thesis by simp
  qed
  show ?thesis
    unfolding unfold[of ?A] same unfolding unfold[of F] s0 ..
qed

theorem apply_idempotent_witness:
  "applyInjection (applyInjection (js ''doc'') (js ''extra'' @ [NL]) Append (js ''e'') (js ''s''))
       (js ''extra'' @ [NL]) Append (js ''e'') (js ''s'')
     = applyInjection (js ''doc'') (js ''extra'' @ [NL]) Append (js ''e'') (js ''s'')
   \<and> applyInjection (applyInjection docWithFrontMatter (js ''extra'') Prepend (js ''e'') (js ''s''))
       (js ''extra'') Prepend (js ''e'') (js ''s'')
     = applyInjection docWithFrontMatter (js ''extra'') Prepend (js ''e'') (js ''s'')"
proof -
  have nl: "NL \<notin> set (js ''e'')" "NL \<notin> set (js ''s'')" by (simp_all add: js_def)
  have F1: "\<not> sublist (startMarker (js ''e'') (js ''s'') (positionName Append)) (js ''doc'')"
    by (simp add: startMarker_def js_def positionName_def sublist_eval)
  have B1: "\<not> sublist (endMarker (js ''e'') (js ''s'') (positionName Append)) (js ''extra'' @ [NL])"
    by (simp add: endMarker_def js_def positionName_def sublist_eval)
  have F2: "\<not> sublist (startMarker (js ''e'') (js ''s'') (positionName Prepend)) docWithFrontMatter"
    by (simp add: startMarker_def js_def positionName_def docWithFrontMatter_def sublist_eval)
  have B2: "\<not> sublist (endMarker (js ''e'') (js ''s'') (positionName Prepend)) (js ''extra'')"
    by (simp add: endMarker_def js_def positionName_def sublist_eval)
  have fm: "Prepend = Append \<or> frontMatter docWithFrontMatter \<noteq> None"
    by (simp add: frontMatter_def docWithFrontMatter_def js_def)
  show ?thesis
    using apply_idempotent[OF nl F1 B1] apply_idempotent[OF nl F2 B2 fm] by simp
qed

section \<open>Exact strip\<close>

text \<open>
  C2, as stated, fails. Append first trims the end of the file and strip takes away one
  line feed before the block and one after it, so a file without a final line feed comes
  back with one; and an injection that holds the end marker of its own triple ends the
  stripped span early, leaving its tail in the file.
\<close>

theorem strip_after_apply_counterexample:
  "stripInjection (applyInjection (js ''doc'') (js ''y'') Append (js ''e'') (js ''s''))
       (js ''e'') (js ''s'') (positionName Append) = js ''doc'' @ [NL]
   \<and> js ''doc'' @ [NL] \<noteq> js ''doc''
   \<and> stripInjection (applyInjection (js ''doc'' @ [NL]) contentWithEndMarker Append (js ''e'') (js ''s''))
       (js ''e'') (js ''s'') (positionName Append)
     = js ''doc'' @ [NL] @ js ''b'' @ [NL] @ endMarker (js ''e'') (js ''s'') (positionName Append) @ [NL]"
  by (simp add: codec_defs contentWithEndMarker_def)

text \<open>
  C2, amended. When the extension and skill names hold no line feed, the file does not
  hold the start marker of the triple and the injection does not hold its end marker:
  strip after an append yields the file with its trailing white space replaced by one
  line feed, and strip after a prepend on a file with front matter yields the file
  exactly.
\<close>

theorem strip_after_apply:
  assumes nl: "NL \<notin> set ext" "NL \<notin> set skill"
    and F: "\<not> sublist (startMarker ext skill (positionName p)) F"
    and B: "\<not> sublist (endMarker ext skill (positionName p)) B"
  shows "(p = Append \<longrightarrow>
            stripInjection (applyInjection F B p ext skill) ext skill (positionName p)
            = trimEnd F @ [NL])
       \<and> (p = Prepend \<and> frontMatter F \<noteq> None \<longrightarrow>
            stripInjection (applyInjection F B p ext skill) ext skill (positionName p) = F)"
  using strip_appended[OF nl] strip_prepended[OF nl] F B by auto

theorem strip_after_apply_witness:
  "stripInjection (applyInjection (js ''doc'') (js ''extra'' @ [NL]) Append (js ''e'') (js ''s''))
       (js ''e'') (js ''s'') (positionName Append) = js ''doc'' @ [NL]
   \<and> stripInjection (applyInjection docWithFrontMatter (js ''extra'') Prepend (js ''e'') (js ''s''))
       (js ''e'') (js ''s'') (positionName Prepend) = docWithFrontMatter"
proof -
  have nl: "NL \<notin> set (js ''e'')" "NL \<notin> set (js ''s'')" by (simp_all add: js_def)
  have F1: "\<not> sublist (startMarker (js ''e'') (js ''s'') (positionName Append)) (js ''doc'')"
    by (simp add: startMarker_def js_def positionName_def sublist_eval)
  have B1: "\<not> sublist (endMarker (js ''e'') (js ''s'') (positionName Append)) (js ''extra'' @ [NL])"
    by (simp add: endMarker_def js_def positionName_def sublist_eval)
  have F2: "\<not> sublist (startMarker (js ''e'') (js ''s'') (positionName Prepend)) docWithFrontMatter"
    by (simp add: startMarker_def js_def positionName_def docWithFrontMatter_def sublist_eval)
  have B2: "\<not> sublist (endMarker (js ''e'') (js ''s'') (positionName Prepend)) (js ''extra'')"
    by (simp add: endMarker_def js_def positionName_def sublist_eval)
  have fm: "frontMatter docWithFrontMatter \<noteq> None"
    by (simp add: frontMatter_def docWithFrontMatter_def js_def)
  have t: "trimEnd (js ''doc'') = js ''doc''"
    by (simp add: trimEnd_def js_def isWhiteSpace_def)
  show ?thesis
    using strip_after_apply[OF nl F1 B1] strip_after_apply[OF nl F2 B2] fm t by simp
qed

section \<open>Stripping by extension name\<close>






















section \<open>The files after the strip by name\<close>





















section \<open>Stripping one directive among the blocks of others\<close>


























section \<open>The files after the strip by manifest\<close>













section \<open>No orphan markers\<close>








end
